theory Spec2Isabelle
  imports Complex_Main
begin

section \<open>Data model of the key-management core (FHE.cpp)\<close>

text \<open>
  The embedding follows \<^verbatim>\<open>src/src/FHE.cpp\<close>. Machine integers of type \<^verbatim>\<open>long\<close> and NTL's
  \<^verbatim>\<open>ZZ\<close> are mathematical integers, a \<^verbatim>\<open>ZZX\<close> is the list of its coefficients (constant
  term first), an \<^verbatim>\<open>IndexSet\<close> is a set of prime indices. Exceptions and failed assertions
  are values of type \<open>error\<close>.
\<close>

datatype error =
    OutOfRange | LengthError | AssertionFailed | PlaintextSpaceMismatch
  | InvModUndefined | DivisionByZero

datatype PA_tag = PA_GF2_tag | PA_zz_p_tag | PA_cx_tag

type_synonym ZZX = "int list"

type_synonym IndexSet = "nat set"

text \<open>
  Floating point. A \<^verbatim>\<open>double\<close> is a value of the type parameter \<open>'f\<close>: the arithmetic of
  the machine and the functions of the mathematical library are parameters of the model
  (fields of the engine below), and nothing is assumed of the way they round.

  NTL's \<^verbatim>\<open>xdouble\<close> is a \<^verbatim>\<open>double\<close> mantissa together with an exponent of type \<^verbatim>\<open>long\<close>. A
  field of that type holds the real number the pair stands for: a number \<open>m * 2 ^ k\<close> or
  \<open>m / 2 ^ k\<close> with an integer mantissa \<open>m\<close> of 53 bits (the bound \<open>2 ^ 53\<close> itself adds no
  number, \<open>2 ^ 53 * 2 ^ k\<close> being \<open>2 ^ 52 * 2 ^ (k + 1)\<close>). \<open>XD\<close> is the set of these numbers,
  \<open>xdouble\<close> is the type of the results of the operations that produce an \<^verbatim>\<open>xdouble\<close>, and
  \<open>xval\<close> reads the number a result stands for.
\<close>

definition XD :: "real set" where
  "XD = {x. \<exists>(m::int) (k::nat). \<bar>m\<bar> \<le> 2 ^ 53 \<and> (x = of_int m * 2 ^ k \<or> x = of_int m / 2 ^ k)}"

typedef xdouble = XD
  morphisms xval Abs_xdouble
proof
  have "\<bar>0::int\<bar> \<le> 2 ^ 53 \<and> ((0::real) = of_int 0 * 2 ^ 0 \<or> (0::real) = of_int 0 / 2 ^ 0)"
    by simp
  then show "0 \<in> XD" unfolding XD_def by blast
qed

text \<open>
  \<^verbatim>\<open>SKHandle\<close>: which secret key, raised to which power, with \<open>X\<close> replaced by which power.
  The class is declared in a header that is not part of the sources; its three fields and
  its structural comparison are the ones FHE.cpp reads through the getters.
\<close>

record SKHandle =
  powerOfS :: int
  powerOfX :: int
  secretKeyID :: int

text \<open>
  The scheme parameters FHE.cpp reads from \<^verbatim>\<open>FHEcontext\<close>: \<^verbatim>\<open>zMStar.getM()\<close>,
  \<^verbatim>\<open>zMStar.getPhiM()\<close>, \<^verbatim>\<open>zMStar.getPow2()\<close>, \<^verbatim>\<open>stdev\<close>, \<^verbatim>\<open>alMod.getTag()\<close>,
  \<^verbatim>\<open>alMod.getPPowR()\<close>, \<^verbatim>\<open>alMod.getCx().encodeScalingFactor()\<close>, the prime sets, the
  digits, \<^verbatim>\<open>productOfPrimes\<close>, \<^verbatim>\<open>isBootstrappable()\<close> and \<^verbatim>\<open>rcData.alMod->getPPowR()\<close>.
  The context is built elsewhere; here it is a parameter.
\<close>

record FHEcontext =
  getM :: int
  getPhiM :: int
  getPow2 :: int
  stdev :: real
  getTag :: PA_tag
  getPPowR :: int
  encodeScalingFactor :: int
  ctxtPrimes :: IndexSet
  specialPrimes :: IndexSet
  digits :: "IndexSet list"
  productOfPrimes :: "IndexSet \<Rightarrow> int"
  isBootstrappable :: bool
  rcPPowR :: int

text \<open>A ciphertext part is a \<^verbatim>\<open>DoubleCRT\<close> (type \<open>'d\<close>) tagged with a handle.\<close>

record 'd CtxtPart =
  poly :: 'd
  skHandle :: SKHandle

record 'd Ctxt =
  parts :: "'d CtxtPart list"
  primeSet :: IndexSet
  ptxtSpace :: int
  noiseVar :: real
  highWaterMark :: int
  ratFactor :: real

text \<open>
  \<^verbatim>\<open>KeySwitch\<close>. The digit vector \<^verbatim>\<open>b\<close> is the field \<open>bvec\<close>; the fields
  \<^verbatim>\<open>ptxtSpace\<close> and \<^verbatim>\<open>noiseVar\<close> carry the suffix \<open>KS\<close> to keep them apart from the fields
  of \<^verbatim>\<open>Ctxt\<close>.
\<close>

record 'd KeySwitch =
  fromKey :: SKHandle
  toKeyID :: int
  ptxtSpaceKS :: int
  bvec :: "'d list"
  prgSeed :: int
  noiseVarKS :: real

text \<open>
  \<^verbatim>\<open>FHEPubKey\<close> holds a reference to its context: \<open>getContext\<close> is the referenced object
  and \<open>contextAddr\<close> its address, which \<^verbatim>\<open>operator==\<close> compares.
\<close>

record 'd FHEPubKey =
  getContext :: FHEcontext
  contextAddr :: nat
  pubEncrKey :: "'d Ctxt"
  skSizes :: "int list"
  keySwitching :: "'d KeySwitch list"
  keySwitchMap :: "int list list"
  KS_strategy :: "int list"
  recryptKeyID :: int
  recryptEkey :: "'d Ctxt"

record 'd FHESecKey = "'d FHEPubKey" +
  sKeys :: "'d list"

text \<open>
  The polynomial-arithmetic engine (\<^verbatim>\<open>DoubleCRT\<close>, \<^verbatim>\<open>Ctxt\<close> helpers) is not part of the
  sources. Its operations are parameters of the model, one field per operation that
  FHE.cpp calls:
  \<^item> \<open>zeroD s\<close>: \<^verbatim>\<open>DoubleCRT(context, s)\<close>, the zero object over the primes \<open>s\<close>;
  \<^item> \<open>addD\<close>, \<open>subD\<close>, \<open>mulD\<close>: \<^verbatim>\<open>+=\<close>, \<^verbatim>\<open>-=\<close>, \<^verbatim>\<open>*=\<close> with a \<^verbatim>\<open>DoubleCRT\<close>;
  \<^item> \<open>MulNoMatch\<close>: \<^verbatim>\<open>Mul(s, /*matchIndexSets=*/false)\<close>;
  \<^item> \<open>scaleD\<close>: \<^verbatim>\<open>*=\<close> with a \<^verbatim>\<open>long\<close> or a \<^verbatim>\<open>ZZ\<close>;
  \<^item> \<open>addPoly\<close>: \<^verbatim>\<open>+=\<close> with a \<^verbatim>\<open>ZZX\<close>;
  \<^item> \<open>automorph\<close>, \<open>Exp\<close>, \<open>getIndexSet\<close>, \<open>removePrimes\<close>, \<open>toPoly\<close>;
  \<^item> \<open>eqD\<close>: \<^verbatim>\<open>operator==\<close> of \<^verbatim>\<open>DoubleCRT\<close>;
  \<^item> \<open>findBaseLevel\<close>, \<open>addConstant\<close>, \<open>equalsTo\<close>: the methods of \<^verbatim>\<open>Ctxt\<close> of these names
    (\<open>equalsTo\<close> always called with \<^verbatim>\<open>comparePkeys=false\<close>).

  The floating-point operations FHE.cpp uses are parameters in the same way:
  \<^item> \<open>to_double\<close>: \<^verbatim>\<open>to_double\<close> and \<^verbatim>\<open>conv<double>\<close>, from an \<^verbatim>\<open>xdouble\<close> (given by the number
    it holds) to a \<^verbatim>\<open>double\<close>;
  \<^item> \<open>ofLong\<close>: the conversion of a \<^verbatim>\<open>long\<close> to \<^verbatim>\<open>double\<close>; the literals \<^verbatim>\<open>2.0\<close>, \<^verbatim>\<open>4.0\<close>
    and \<^verbatim>\<open>8.0\<close> are \<open>ofLong 2\<close>, \<open>ofLong 4\<close> and \<open>ofLong 8\<close>;
  \<^item> \<open>fadd\<close>, \<open>fsub\<close>, \<open>fmul\<close>, \<open>fdiv\<close>: \<^verbatim>\<open>+\<close>, \<^verbatim>\<open>-\<close>, \<^verbatim>\<open>*\<close>, \<^verbatim>\<open>/\<close> of two \<^verbatim>\<open>double\<close>;
  \<^item> \<open>fsqrt\<close>, \<open>flog\<close>, \<open>flog2\<close>: \<^verbatim>\<open>sqrt\<close>, \<^verbatim>\<open>log\<close>, \<^verbatim>\<open>log2\<close> of a \<^verbatim>\<open>double\<close>;
  \<^item> \<open>fceil\<close>: \<^verbatim>\<open>ceil\<close> followed by the conversion of its result to \<^verbatim>\<open>long\<close>;
  \<^item> \<open>to_xdouble\<close>: the conversion of a \<^verbatim>\<open>double\<close> to \<^verbatim>\<open>xdouble\<close>;
  \<^item> \<open>xadd\<close>, \<open>xmul\<close>: \<^verbatim>\<open>+\<close> and \<^verbatim>\<open>*\<close> of an \<^verbatim>\<open>xdouble\<close> and a \<^verbatim>\<open>double\<close>;
  \<^item> \<open>xexp\<close>: NTL's \<^verbatim>\<open>xexp\<close>, from a \<^verbatim>\<open>double\<close> to an \<^verbatim>\<open>xdouble\<close>;
  \<^item> \<open>logOfProduct\<close>: \<^verbatim>\<open>FHEcontext::logOfProduct\<close>, which returns a \<^verbatim>\<open>double\<close>.
\<close>

record ('d, 'f) engine =
  zeroD :: "IndexSet \<Rightarrow> 'd"
  addD :: "'d \<Rightarrow> 'd \<Rightarrow> 'd"
  subD :: "'d \<Rightarrow> 'd \<Rightarrow> 'd"
  mulD :: "'d \<Rightarrow> 'd \<Rightarrow> 'd"
  MulNoMatch :: "'d \<Rightarrow> 'd \<Rightarrow> 'd"
  scaleD :: "'d \<Rightarrow> int \<Rightarrow> 'd"
  addPoly :: "'d \<Rightarrow> ZZX \<Rightarrow> 'd"
  automorph :: "'d \<Rightarrow> int \<Rightarrow> 'd"
  Exp :: "'d \<Rightarrow> int \<Rightarrow> 'd"
  getIndexSet :: "'d \<Rightarrow> IndexSet"
  removePrimes :: "'d \<Rightarrow> IndexSet \<Rightarrow> 'd"
  toPoly :: "'d \<Rightarrow> ZZX"
  eqD :: "'d \<Rightarrow> 'd \<Rightarrow> bool"
  findBaseLevel :: "'d Ctxt \<Rightarrow> int"
  addConstant :: "'d Ctxt \<Rightarrow> ZZX \<Rightarrow> 'd Ctxt"
  equalsTo :: "'d Ctxt \<Rightarrow> 'd Ctxt \<Rightarrow> bool"
  to_double :: "real \<Rightarrow> 'f"
  ofLong :: "int \<Rightarrow> 'f"
  fadd :: "'f \<Rightarrow> 'f \<Rightarrow> 'f"
  fsub :: "'f \<Rightarrow> 'f \<Rightarrow> 'f"
  fmul :: "'f \<Rightarrow> 'f \<Rightarrow> 'f"
  fdiv :: "'f \<Rightarrow> 'f \<Rightarrow> 'f"
  fsqrt :: "'f \<Rightarrow> 'f"
  flog :: "'f \<Rightarrow> 'f"
  flog2 :: "'f \<Rightarrow> 'f"
  fceil :: "'f \<Rightarrow> int"
  to_xdouble :: "'f \<Rightarrow> xdouble"
  xadd :: "real \<Rightarrow> 'f \<Rightarrow> xdouble"
  xmul :: "real \<Rightarrow> 'f \<Rightarrow> xdouble"
  xexp :: "'f \<Rightarrow> xdouble"
  logOfProduct :: "FHEcontext \<Rightarrow> IndexSet \<Rightarrow> 'f"

text \<open>
  The random draws of one call are an explicit input. Each sampler is indexed by the
  parameter the code passes and by the position of the draw (the loop index), so that two
  calls with the same \<open>draws\<close> see the same randomness:
  \<^item> \<open>sampleSmall\<close>: \<^verbatim>\<open>r.sampleSmall()\<close>;
  \<^item> \<open>sampleGaussian sd i\<close>, \<open>sampleGaussianBounded sd i\<close>, \<open>sampleUniform B i\<close>;
  \<^item> \<open>randomBits\<close>: \<^verbatim>\<open>RandomBits(seed, 256)\<close>;
  \<^item> \<open>randomize seed i\<close>: the \<open>i\<close>-th \<^verbatim>\<open>randomize()\<close> after \<^verbatim>\<open>SetSeed(seed)\<close>;
  \<^item> \<open>randomizeFresh\<close>: \<^verbatim>\<open>randomize(NULL)\<close>, from the global generator.
\<close>

record ('d, 'f) draws =
  sampleSmall :: 'd
  sampleGaussian :: "'f \<Rightarrow> nat \<Rightarrow> 'd"
  sampleGaussianBounded :: "'f \<Rightarrow> nat \<Rightarrow> 'd"
  sampleUniform :: "int \<Rightarrow> nat \<Rightarrow> 'd"
  randomBits :: int
  randomize :: "int \<Rightarrow> nat \<Rightarrow> 'd"
  randomizeFresh :: 'd

section \<open>KeySwitch::operator==\<close>

text \<open>
  The loop \<^verbatim>\<open>for (i=0; i<a.size(); i++) if (a[i] != b[i]) return false;\<close> over two vectors
  of one size: \<open>vec_differs neq a b\<close> holds when the loop returns \<^verbatim>\<open>false\<close>.
\<close>

fun vec_differs :: "('a \<Rightarrow> 'a \<Rightarrow> bool) \<Rightarrow> 'a list \<Rightarrow> 'a list \<Rightarrow> bool" where
  "vec_differs neq (x # xs) (y # ys) = (if neq x y then True else vec_differs neq xs ys)"
| "vec_differs neq _ _ = False"

text \<open>
  \<open>same\<close> is the outcome of the pointer test \<^verbatim>\<open>this == &other\<close>.
\<close>

definition KeySwitch_eq :: "('d, 'f) engine \<Rightarrow> bool \<Rightarrow> 'd KeySwitch \<Rightarrow> 'd KeySwitch \<Rightarrow> bool" where
  "KeySwitch_eq E same this other =
     (if same then True
      else if fromKey this \<noteq> fromKey other then False
      else if toKeyID this \<noteq> toKeyID other then False
      else if ptxtSpaceKS this \<noteq> ptxtSpaceKS other then False
      else if prgSeed this \<noteq> prgSeed other then False
      else if length (bvec this) \<noteq> length (bvec other) then False
      else if vec_differs (\<lambda>x y. \<not> eqD E x y) (bvec this) (bvec other) then False
      else True)"

section \<open>FHEPubKey::operator==\<close>

text \<open>
  The constant \<^verbatim>\<open>FHE_KSS_UNKNOWN\<close> is defined in a header that is not part of the sources;
  it is a parameter \<open>unk\<close> of the comparison.

  \<open>trailing unk ks n\<close> is the loop
  \<^verbatim>\<open>while (n >= 0 && KS_strategy[n-1] == FHE_KSS_UNKNOWN) n--;\<close>.
  Reading \<^verbatim>\<open>KS_strategy[n-1]\<close> outside the vector (at \<open>n = 0\<close>) is the error \<open>OutOfRange\<close>.
\<close>

function trailing :: "int \<Rightarrow> int list \<Rightarrow> int \<Rightarrow> error + int" where
  "trailing unk ks n =
     (if n \<ge> 0 then
        (if 0 \<le> n - 1 \<and> n - 1 < int (length ks) then
           (if ks ! nat (n - 1) = unk then trailing unk ks (n - 1) else Inr n)
         else Inl OutOfRange)
      else Inr n)"
  by pat_completeness auto
termination
  by (relation "measure (\<lambda>(unk, ks, n). nat n)") auto

declare trailing.simps [simp del]

text \<open>The loop \<^verbatim>\<open>for (long i: range(n))\<close> comparing the first \<open>n\<close> strategy entries.\<close>

definition strategy_differs :: "int list \<Rightarrow> int list \<Rightarrow> int \<Rightarrow> bool" where
  "strategy_differs ks ks' n = (\<exists>i \<in> set [0 ..< nat n]. ks ! i \<noteq> ks' ! i)"

text \<open>The nested loops over \<^verbatim>\<open>keySwitchMap\<close>, after the outer sizes were found equal.\<close>

fun map_differs :: "int list list \<Rightarrow> int list list \<Rightarrow> bool" where
  "map_differs (r # rs) (r' # rs') =
     (if length r \<noteq> length r' then True
      else if vec_differs (\<lambda>x y. x \<noteq> y) r r' then True
      else map_differs rs rs')"
| "map_differs _ _ = False"

definition FHEPubKey_eq ::
  "('d, 'f) engine \<Rightarrow> int \<Rightarrow> bool \<Rightarrow> ('d, 'a) FHEPubKey_scheme \<Rightarrow> ('d, 'b) FHEPubKey_scheme \<Rightarrow> error + bool"
where
  "FHEPubKey_eq E unk same this other =
     (if same then Inr True
      else if contextAddr this \<noteq> contextAddr other then Inr False
      else if \<not> equalsTo E (pubEncrKey this) (pubEncrKey other) then Inr False
      else if length (skSizes this) \<noteq> length (skSizes other) then Inr False
      else if vec_differs (\<lambda>x y. x \<noteq> y) (skSizes this) (skSizes other) then Inr False
      else if length (keySwitching this) \<noteq> length (keySwitching other) then Inr True
      else if vec_differs (\<lambda>x y. \<not> KeySwitch_eq E False x y)
                (keySwitching this) (keySwitching other) then Inr False
      else if length (keySwitchMap this) \<noteq> length (keySwitchMap other) then Inr False
      else if map_differs (keySwitchMap this) (keySwitchMap other) then Inr False
      else
        (case trailing unk (KS_strategy this) (int (length (KS_strategy this))) of
           Inl e \<Rightarrow> Inl e
         | Inr n \<Rightarrow>
             (case trailing unk (KS_strategy other) (int (length (KS_strategy other))) of
                Inl e \<Rightarrow> Inl e
              | Inr n1 \<Rightarrow>
                  if n \<noteq> n1 then Inr False
                  else if strategy_differs (KS_strategy this) (KS_strategy other) n
                    then Inr False
                  else if recryptKeyID this \<noteq> recryptKeyID other then Inr False
                  else if recryptKeyID this \<ge> 0 \<and>
                          \<not> equalsTo E (recryptEkey this) (recryptEkey other) then Inr False
                  else Inr True)))"

section \<open>The RLWE sampler\<close>

text \<open>
  \<^verbatim>\<open>RLWE1\<close>: the error \<open>e\<close> is the \<open>i\<close>-th bounded Gaussian draw, \<open>c0 = p*e - c1*s\<close>, and the
  returned \<^verbatim>\<open>double\<close> is the variance, the product \<^verbatim>\<open>stdev*stdev * p*p * (m or phi(m))\<close>
  evaluated from left to right. The first component of the result is the new \<open>c0\<close>.
\<close>

definition RLWE1 ::
  "('d, 'f) engine \<Rightarrow> ('d, 'f) draws \<Rightarrow> nat \<Rightarrow> FHEcontext \<Rightarrow> 'd \<Rightarrow> 'd \<Rightarrow> int \<Rightarrow> error + ('d \<times> 'f)"
where
  "RLWE1 E R i ctx c1 s p =
     (if \<not> p > 0 then Inl AssertionFailed
      else
        let sd = (if getPow2 ctx = 0
                  then fmul E (to_double E (stdev ctx)) (fsqrt E (ofLong E (getM ctx)))
                  else to_double E (stdev ctx));
            c0 = sampleGaussianBounded R sd i;
            c0 = (if p > 1 then scaleD E c0 p else c0);
            tmp = MulNoMatch E c1 s;
            c0 = subD E c0 tmp
        in Inr (c0, fmul E (fmul E (fmul E (fmul E sd sd) (ofLong E p)) (ofLong E p))
                      (ofLong E (if getPow2 ctx > 0 then getM ctx else getPhiM ctx))))"

text \<open>\<^verbatim>\<open>RLWE\<close>: \<open>c1\<close> is drawn first (from the seed when one is given).\<close>

definition RLWE ::
  "('d, 'f) engine \<Rightarrow> ('d, 'f) draws \<Rightarrow> FHEcontext \<Rightarrow> 'd \<Rightarrow> int \<Rightarrow> int option
     \<Rightarrow> error + ('d \<times> 'd \<times> 'f)"
where
  "RLWE E R ctx s p seed =
     (let c1 = (case seed of None \<Rightarrow> randomizeFresh R | Some z \<Rightarrow> randomize R z 0)
      in case RLWE1 E R 0 ctx c1 s p of
           Inl e \<Rightarrow> Inl e
         | Inr (c0, v) \<Rightarrow> Inr (c0, c1, v))"

section \<open>The routing table: FHEPubKey::setKeySwitchMap\<close>

text \<open>\<^verbatim>\<open>v.at(i)\<close> of a vector: a checked read.\<close>

definition vec_at :: "'a list \<Rightarrow> int \<Rightarrow> error + 'a" where
  "vec_at xs i = (if 0 \<le> i \<and> i < int (length xs) then Inr (xs ! nat i) else Inl OutOfRange)"

text \<open>
  NTL's \<^verbatim>\<open>MulMod(a, b, n)\<close> on \<^verbatim>\<open>long\<close>: the product modulo \<open>n\<close>, in \<open>[0, n)\<close>. NTL
  documents it for \<open>0 \<le> a, b < n\<close>, which is where the powers of \<open>X\<close> of the matrices and the
  nodes of the search lie; the definition is the mathematical value everywhere.
\<close>

definition MulMod :: "int \<Rightarrow> int \<Rightarrow> int \<Rightarrow> int" where
  "MulMod a b n = (a * b) mod n"

text \<open>
  The edges: for every matrix \<open>i\<close> with \<^verbatim>\<open>toKeyID == keyId\<close>, \<^verbatim>\<open>getPowerOfS() == 1\<close> and
  \<^verbatim>\<open>getSecretKeyID() == keyId\<close>, the pair of its power of \<open>X\<close> and \<open>i\<close>, in registry order.
\<close>

definition keySwitchingEdges :: "int \<Rightarrow> 'd KeySwitch list \<Rightarrow> (int \<times> nat) list" where
  "keySwitchingEdges keyId ms =
     [(powerOfX (fromKey (ms ! i)), i).
        i \<leftarrow> [0 ..< length ms],
        toKeyID (ms ! i) = keyId \<and> powerOfS (fromKey (ms ! i)) = 1
          \<and> secretKeyID (fromKey (ms ! i)) = keyId]"

text \<open>
  The inner loop over the edges for one \<open>currentNode\<close>: a node whose entry is \<open>-1\<close> gets
  the matrix index and is pushed onto the queue.
\<close>

fun bfsEdges ::
  "int \<Rightarrow> int \<Rightarrow> (int \<times> nat) list \<Rightarrow> int list \<Rightarrow> int list \<Rightarrow> error + (int list \<times> int list)"
where
  "bfsEdges m currentNode [] tab q = Inr (tab, q)"
| "bfsEdges m currentNode ((n, matrixIndex) # es) tab q =
     (let nextNode = MulMod currentNode n m in
      case vec_at tab nextNode of
        Inl e \<Rightarrow> Inl e
      | Inr v \<Rightarrow>
          if v = - 1
          then bfsEdges m currentNode es (tab[nat nextNode := int matrixIndex]) (q @ [nextNode])
          else bfsEdges m currentNode es tab q)"

text \<open>The outer loop: while the queue is not empty, serve its front and pop it.\<close>

function bfsLoop :: "int \<Rightarrow> (int \<times> nat) list \<Rightarrow> int list \<Rightarrow> int list \<Rightarrow> error + int list" where
  "bfsLoop m edges tab q =
     (case q of
        [] \<Rightarrow> Inr tab
      | currentNode # _ \<Rightarrow>
          (case bfsEdges m currentNode edges tab q of
             Inl e \<Rightarrow> Inl e
           | Inr (tab', q') \<Rightarrow> bfsLoop m edges tab' (tl q')))"
  by pat_completeness auto
termination
proof (relation "measure (\<lambda>(m, edges, tab, q). 2 * count_list tab (- 1) + length q)")
  show "wf (measure (\<lambda>(m, edges, tab, q). 2 * count_list tab (- 1) + length q))"
    by simp
next
  fix m :: int and edges :: "(int \<times> nat) list" and tab q :: "int list"
    and currentNode :: int and rest :: "int list" and res tab' q'
  assume q: "q = currentNode # rest"
    and res: "bfsEdges m currentNode edges tab q = Inr res"
    and pr: "(tab', q') = res"
  have step: "bfsEdges m c es t u = Inr (t', u') \<Longrightarrow>
      2 * count_list t' (- 1) + length u' \<le> 2 * count_list t (- 1) + length u
      \<and> length u \<le> length u'"
    for c es t u t' u'
  proof (induction es arbitrary: t u)
    case Nil
    then show ?case by simp
  next
    case (Cons a es)
    obtain n mi where a: "a = (n, mi)" by (cases a)
    let ?x = "MulMod c n m"
    show ?case
    proof (cases "0 \<le> ?x \<and> ?x < int (length t)")
      case False
      with Cons.prems a show ?thesis by (simp add: vec_at_def Let_def)
    next
      case inr: True
      show ?thesis
      proof (cases "t ! nat ?x = - 1")
        case True
        have cnt: "count_list t (- 1) = Suc (count_list (t[nat ?x := int mi]) (- 1))"
        proof -
          have lt: "nat ?x < length t" using inr by linarith
          have "int mi \<noteq> - 1" by simp
          have "count_list (t[k := w]) (- 1) + 1 = count_list t (- 1)"
            if "k < length t" "t ! k = - 1" "w \<noteq> - 1" for k and w :: int
            using that
          proof (induction t arbitrary: k)
            case Nil
            then show ?case by simp
          next
            case (Cons y ys)
            then show ?case by (cases k) auto
          qed
          from this [OF lt True \<open>int mi \<noteq> - 1\<close>] show ?thesis by simp
        qed
        from Cons.prems a inr True
        have "bfsEdges m c es (t[nat ?x := int mi]) (u @ [?x]) = Inr (t', u')"
          by (simp add: vec_at_def Let_def)
        from Cons.IH [OF this] cnt show ?thesis by simp
      next
        case False
        from Cons.prems a inr False have "bfsEdges m c es t u = Inr (t', u')"
          by (simp add: vec_at_def Let_def)
        from Cons.IH [OF this] show ?thesis .
      qed
    qed
  qed
  from res pr have "bfsEdges m currentNode edges tab q = Inr (tab', q')" by simp
  from step [OF this] q
  show "((m, edges, tab', tl q'), (m, edges, tab, q))
          \<in> measure (\<lambda>(m, edges, tab, q). 2 * count_list tab (- 1) + length q)"
    by (cases q') auto
qed

declare bfsLoop.simps [simp del]

text \<open>
  \<^verbatim>\<open>setKeySwitchMap\<close>. The assertion on \<open>keyId\<close> is the first branch; \<^verbatim>\<open>resize(keyId+1)\<close>
  appends empty rows; \<^verbatim>\<open>assign(m,-1)\<close> of a negative \<open>m\<close> is a length error.
\<close>

definition setKeySwitchMap ::
  "('d, 'a) FHEPubKey_scheme \<Rightarrow> int \<Rightarrow> error + ('d, 'a) FHEPubKey_scheme"
where
  "setKeySwitchMap pk keyId =
     (if \<not> (keyId \<ge> 0 \<and> keyId < int (length (skSizes pk))) then Inl AssertionFailed
      else
        let m = getM (getContext pk);
            edges = keySwitchingEdges keyId (keySwitching pk);
            ksm = (if keyId \<ge> int (length (keySwitchMap pk))
                   then keySwitchMap pk
                          @ replicate (nat (keyId + 1) - length (keySwitchMap pk)) []
                   else keySwitchMap pk)
        in if m < 0 then Inl LengthError
           else
             case bfsLoop m edges (replicate (nat m) (- 1)) [1] of
               Inl e \<Rightarrow> Inl e
             | Inr tab \<Rightarrow> Inr (pk\<lparr>keySwitchMap := ksm[nat keyId := tab]\<rparr>))"

section \<open>Matrix lookup\<close>

text \<open>\<^verbatim>\<open>KeySwitch::dummy()\<close> is \<^verbatim>\<open>KeySwitch(-1,-1,-1,-1)\<close>.\<close>

definition dummy :: "'d KeySwitch" where
  "dummy = \<lparr>fromKey = \<lparr>powerOfS = - 1, powerOfX = - 1, secretKeyID = - 1\<rparr>,
            toKeyID = - 1, ptxtSpaceKS = 0, bvec = [], prgSeed = 0, noiseVarKS = 0\<rparr>"

text \<open>
  \<^verbatim>\<open>getKeySWmatrix(from, toIdx)\<close>: first the routing table, then the linear search for the
  first matrix with \<^verbatim>\<open>toKeyID==toIdx && fromKey==from\<close>, then the dummy.
\<close>

definition linearSearch :: "'d KeySwitch list \<Rightarrow> SKHandle \<Rightarrow> int \<Rightarrow> 'd KeySwitch" where
  "linearSearch ms from_h toIdx =
     (case find (\<lambda>ks. toKeyID ks = toIdx \<and> fromKey ks = from_h) ms of
        Some ks \<Rightarrow> ks
      | None \<Rightarrow> dummy)"

definition getKeySWmatrix ::
  "('d, 'a) FHEPubKey_scheme \<Rightarrow> SKHandle \<Rightarrow> int \<Rightarrow> error + 'd KeySwitch"
where
  "getKeySWmatrix pk from_h toIdx =
     (if powerOfS from_h = 1 \<and> secretKeyID from_h = toIdx
           \<and> toIdx < int (length (keySwitchMap pk))
      then
        (case vec_at (keySwitchMap pk) toIdx of
           Inl e \<Rightarrow> Inl e
         | Inr row \<Rightarrow>
             (case vec_at row (powerOfX from_h) of
                Inl e \<Rightarrow> Inl e
              | Inr matIdx \<Rightarrow>
                  if matIdx \<ge> 0 then
                    (case vec_at (keySwitching pk) matIdx of
                       Inl e \<Rightarrow> Inl e
                     | Inr matrix \<Rightarrow>
                         if fromKey matrix = from_h then Inr matrix
                         else Inr (linearSearch (keySwitching pk) from_h toIdx))
                  else Inr (linearSearch (keySwitching pk) from_h toIdx)))
      else Inr (linearSearch (keySwitching pk) from_h toIdx))"

text \<open>
  Modelled from the spec: \<^verbatim>\<open>haveKeySWmatrix\<close> is declared in the header of the public key,
  which is not part of the sources. The specification skips generation "if an equivalent
  matrix already exists", and a lookup that finds nothing returns the dummy matrix
  (\<^verbatim>\<open>toKeyID=-1\<close>): a matrix exists when the lookup for the handle
  \<open>(fromSPower, fromXPower, fromID)\<close> and \<open>toID\<close> returns one whose \<open>toKeyID\<close> is not negative.
\<close>

definition haveKeySWmatrix ::
  "('d, 'a) FHEPubKey_scheme \<Rightarrow> int \<Rightarrow> int \<Rightarrow> int \<Rightarrow> int \<Rightarrow> error + bool"
where
  "haveKeySWmatrix pk fromSPower fromXPower fromID toID =
     (case getKeySWmatrix pk
             \<lparr>powerOfS = fromSPower, powerOfX = fromXPower, secretKeyID = fromID\<rparr> toID of
        Inl e \<Rightarrow> Inl e
      | Inr matrix \<Rightarrow> Inr (toKeyID matrix \<ge> 0))"

section \<open>Helpers on coefficient vectors\<close>

text \<open>A \<^verbatim>\<open>ZZX\<close> is kept normalised: no leading zero coefficient.\<close>

definition normalize_ZZX :: "ZZX \<Rightarrow> ZZX" where
  "normalize_ZZX f = rev (dropWhile (\<lambda>c. c = 0) (rev f))"

text \<open>
  Modelled from the spec: \<^verbatim>\<open>PolyRed\<close> and the \<^verbatim>\<open>MulMod\<close> on polynomials belong to the
  number-theory helper module, which is not part of the sources. Called with \<^verbatim>\<open>abs=true\<close>,
  \<^verbatim>\<open>PolyRed(f, q, true)\<close> reduces every coefficient to \<open>[0, q-1]\<close> (the comment at the
  call in \<^verbatim>\<open>Decrypt\<close>, and section 4.6 of the specification), and
  \<^verbatim>\<open>MulMod(f, a, q)\<close> multiplies every coefficient by \<open>a\<close> modulo \<open>q\<close>.
\<close>

definition PolyRed :: "ZZX \<Rightarrow> int \<Rightarrow> ZZX" where
  "PolyRed f q = normalize_ZZX (map (\<lambda>c. c mod q) f)"

definition MulMod_ZZX :: "ZZX \<Rightarrow> int \<Rightarrow> int \<Rightarrow> ZZX" where
  "MulMod_ZZX f a q = normalize_ZZX (map (\<lambda>c. ((c mod q) * a) mod q) f)"

text \<open>\<^verbatim>\<open>ptxt * extraFactor\<close> on a \<^verbatim>\<open>ZZX\<close>.\<close>

definition scale_ZZX :: "ZZX \<Rightarrow> int \<Rightarrow> ZZX" where
  "scale_ZZX f a = normalize_ZZX (map (\<lambda>c. c * a) f)"

text \<open>
  NTL's \<^verbatim>\<open>InvMod(a, n)\<close> on \<^verbatim>\<open>long\<close>: the inverse of \<open>a\<close> modulo \<open>n\<close> in \<open>[0, n)\<close>, an
  error when there is none.
\<close>

definition InvMod :: "int \<Rightarrow> int \<Rightarrow> error + int" where
  "InvMod a n =
     (case find (\<lambda>x. (a * x) mod n = 1) (map int [0 ..< nat n]) of
        Some x \<Rightarrow> Inr x
      | None \<Rightarrow> Inl InvModUndefined)"

text \<open>
  Modelled from the spec: the methods \<^verbatim>\<open>isOne\<close>, \<^verbatim>\<open>setOne\<close> and \<^verbatim>\<open>setBase\<close> of
  \<^verbatim>\<open>SKHandle\<close> are not part of the sources. "A sentinel value denotes no secret key component
  (constant term)": the handle of the constant term has power 0 of the secret key.
\<close>

definition isOne :: "SKHandle \<Rightarrow> bool" where
  "isOne h = (powerOfS h = 0)"

definition setOne :: SKHandle where
  "setOne = \<lparr>powerOfS = 0, powerOfX = 1, secretKeyID = - 1\<rparr>"

definition setBase :: "int \<Rightarrow> SKHandle" where
  "setBase skIdx = \<lparr>powerOfS = 1, powerOfX = 1, secretKeyID = skIdx\<rparr>"

section \<open>Encryption with the public key\<close>

text \<open>
  The effective Gaussian width, \<^verbatim>\<open>double stdev = to_double(context.stdev)\<close>, multiplied by
  \<^verbatim>\<open>sqrt(m)\<close> when \<open>m\<close> is not a power of two.
\<close>

definition scaled_stdev :: "('d, 'f) engine \<Rightarrow> FHEcontext \<Rightarrow> 'f" where
  "scaled_stdev E ctx =
     (if getPow2 ctx = 0
      then fmul E (to_double E (stdev ctx)) (fsqrt E (ofLong E (getM ctx)))
      else to_double E (stdev ctx))"

text \<open>
  The loop of \<^verbatim>\<open>Encrypt\<close> that adds noise to all the parts; \<open>i\<close> is the index of the first
  part of the list and \<open>B\<close> the bound \<^verbatim>\<open>productOfPrimes(ctxtPrimes) / (ptxtSpace*8)\<close>.
\<close>

fun addNoise ::
  "('d, 'f) engine \<Rightarrow> ('d, 'f) draws \<Rightarrow> int \<Rightarrow> 'f \<Rightarrow> int \<Rightarrow> bool \<Rightarrow> 'd \<Rightarrow> nat
     \<Rightarrow> 'd CtxtPart list \<Rightarrow> 'd CtxtPart list"
where
  "addNoise E R B sd p highNoise r i [] = []"
| "addNoise E R B sd p highNoise r i (part # ps) =
     (let part = part\<lparr>poly := mulD E (poly part) r\<rparr>;
          e = (if highNoise \<and> i = 0 then sampleUniform R B i else sampleGaussian R sd i);
          e = scaleD E e p;
          part = part\<lparr>poly := addD E (poly part) e\<rparr>
      in part # addNoise E R B sd p highNoise r (Suc i) ps)"

text \<open>The loop of \<^verbatim>\<open>CKKSencrypt\<close>: Gaussian noise on every part, not scaled.\<close>

fun addNoiseCKKS ::
  "('d, 'f) engine \<Rightarrow> ('d, 'f) draws \<Rightarrow> 'f \<Rightarrow> 'd \<Rightarrow> nat \<Rightarrow> 'd CtxtPart list
     \<Rightarrow> 'd CtxtPart list"
where
  "addNoiseCKKS E R sd r i [] = []"
| "addNoiseCKKS E R sd r i (part # ps) =
     (let part = part\<lparr>poly := mulD E (poly part) r\<rparr>;
          e = sampleGaussian R sd i;
          part = part\<lparr>poly := addD E (poly part) e\<rparr>
      in part # addNoiseCKKS E R sd r (Suc i) ps)"

text \<open>\<^verbatim>\<open>ctxt.parts[0] += f\<close>; without a first part the access is out of range.\<close>

definition addToFirst :: "('d, 'f) engine \<Rightarrow> 'd CtxtPart list \<Rightarrow> ZZX \<Rightarrow> error + 'd CtxtPart list" where
  "addToFirst E ps f =
     (case ps of
        [] \<Rightarrow> Inl OutOfRange
      | part # rest \<Rightarrow> Inr (part\<lparr>poly := addPoly E (poly part) f\<rparr> # rest))"

text \<open>
  \<^verbatim>\<open>CKKSencrypt\<close>. \<open>own\<close> is the outcome of the test \<^verbatim>\<open>this == &ctxt.pubKey\<close>. The result
  is the ciphertext and the returned factor.
\<close>

definition CKKSencrypt ::
  "('d, 'f) engine \<Rightarrow> ('d, 'f) draws \<Rightarrow> ('d, 'a) FHEPubKey_scheme \<Rightarrow> bool \<Rightarrow> ZZX \<Rightarrow> int
     \<Rightarrow> error + ('d Ctxt \<times> int)"
where
  "CKKSencrypt E R pk own ptxt ptxtSize =
     (if \<not> own then Inl AssertionFailed
      else
        let ctx = getContext pk;
            ctxt = pubEncrKey pk;
            r = sampleSmall R;
            m = getM ctx;
            sd = scaled_stdev E ctx;
            ctxt = ctxt\<lparr>parts := addNoiseCKKS E R sd r 0 (parts ctxt)\<rparr>;
            rVar = (if getPow2 ctx = 0 then fdiv E (ofLong E (getPhiM ctx)) (ofLong E 2)
                    else fdiv E (ofLong E m) (ofLong E 2));
            eVar = fmul E sd sd
        in case vec_at (skSizes pk) 0 of
             Inl e \<Rightarrow> Inl e
           | Inr sVar \<Rightarrow>
               let nVar = fadd E (fmul E (to_double E (noiseVar (pubEncrKey pk))) rVar)
                            (fmul E (ofLong E sVar) (fadd E eVar (ofLong E 1)));
                   factor = encodeScalingFactor ctx;
                   precision = getPPowR ctx;
                   extraFactor = fceil E (fdiv E (fmul E (fmul E (ofLong E precision)
                                   (fsqrt E nVar)) (flog2 E (ofLong E m))) (ofLong E factor));
                   factor' = (if extraFactor > 1 then factor * extraFactor else factor);
                   added = (if extraFactor > 1 then scale_ZZX ptxt extraFactor else ptxt)
               in (case addToFirst E (parts ctxt) added of
                     Inl e \<Rightarrow> Inl e
                   | Inr ps \<Rightarrow>
                       let ctxt = ctxt\<lparr>parts := ps\<rparr>;
                           ctxt = ctxt\<lparr>noiseVar := xval (to_xdouble E (fadd E nVar
                                     (fmul E (fmul E (fmul E (fmul E rVar (ofLong E factor'))
                                        (ofLong E ptxtSize)) (ofLong E factor'))
                                        (ofLong E ptxtSize))))\<rparr>;
                           ctxt = ctxt\<lparr>ptxtSpace := 1\<rparr>;
                           ctxt = ctxt\<lparr>highWaterMark := findBaseLevel E ctxt\<rparr>;
                           ctxt = ctxt\<lparr>ratFactor := xval (to_xdouble E (ofLong E factor'))\<rparr>
                       in Inr (ctxt, factor')))"

text \<open>
  \<^verbatim>\<open>FHEPubKey::Encrypt\<close>, in the order of the code.

  First the plaintext space: when the requested one differs from the one of the public
  encryption key, their GCD replaces it, and a GCD of at most 1 is the error
  "Plaintext-space mismatch on encryption".
\<close>

definition resolvePtxtSpace :: "int \<Rightarrow> int \<Rightarrow> error + int" where
  "resolvePtxtSpace ptxtSpace0 keySpace =
     (if ptxtSpace0 \<noteq> keySpace then
        (let g = gcd ptxtSpace0 keySpace in
         if g \<le> 1 then Inl PlaintextSpaceMismatch else Inr g)
      else Inr ptxtSpace0)"

text \<open>
  Last the bookkeeping of the noise, on the ciphertext \<open>ctxt\<close> with its parts and its
  plaintext space \<open>p\<close> set; \<open>sd\<close> is the effective Gaussian width. \<^verbatim>\<open>skSizes[0]\<close> of an
  empty vector is out of range.
\<close>

definition recordNoise ::
  "('d, 'f) engine \<Rightarrow> ('d, 'a) FHEPubKey_scheme \<Rightarrow> bool \<Rightarrow> 'f \<Rightarrow> int \<Rightarrow> 'd Ctxt
     \<Rightarrow> error + ('d Ctxt \<times> int)"
where
  "recordNoise E pk highNoise sd p ctxt =
     (let ctx = getContext pk in
      if highNoise then
        Inr (ctxt\<lparr>noiseVar := xval (xexp E (fsub E
                                 (fmul E (ofLong E 2) (logOfProduct E ctx (ctxtPrimes ctx)))
                                 (flog E (ofLong E 8)))),
                  highWaterMark := 0\<rparr>, p)
      else
        let rVar = (if getPow2 ctx = 0 then fdiv E (ofLong E (getPhiM ctx)) (ofLong E 2)
                    else fdiv E (ofLong E (getM ctx)) (ofLong E 2));
            eVar = fmul E sd sd
        in (case vec_at (skSizes pk) 0 of
              Inl e \<Rightarrow> Inl e
            | Inr sVar \<Rightarrow>
                let p2 = fmul E (ofLong E p) (ofLong E p);
                    ctxt = ctxt\<lparr>noiseVar := xval (xadd E
                                     (xval (xmul E (noiseVar (pubEncrKey pk)) rVar))
                                     (fmul E p2 (fadd E (ofLong E 1)
                                        (fmul E (ofLong E sVar) (fadd E eVar (ofLong E 1))))))\<rparr>;
                    ctxt = ctxt\<lparr>highWaterMark := findBaseLevel E ctxt\<rparr>
                in Inr (ctxt, p)))"

text \<open>
  Between the two, with the plaintext space \<open>p\<close> resolved: the copy of the public encryption
  key, the noise on all the parts, the plaintext added to the first part. The division
  \<^verbatim>\<open>B /= (ptxtSpace*8)\<close> and \<^verbatim>\<open>rem(Q, ptxtSpace)\<close> of NTL round to minus infinity, as
  \<open>div\<close> and \<open>mod\<close> do, and fail on a zero divisor. The product \<^verbatim>\<open>ptxtSpace*8\<close> is the one
  of the integers; a \<^verbatim>\<open>long\<close> of 64 bits holds it for a plaintext space below \<open>2 ^ 60\<close>, the
  bound of NTL on a single-precision modulus.
\<close>

definition EncryptBGV ::
  "('d, 'f) engine \<Rightarrow> ('d, 'f) draws \<Rightarrow> ('d, 'a) FHEPubKey_scheme \<Rightarrow> ZZX \<Rightarrow> int \<Rightarrow> bool
     \<Rightarrow> error + ('d Ctxt \<times> int)"
where
  "EncryptBGV E R pk ptxt p highNoise =
     (let ctx = getContext pk;
          ctxt = pubEncrKey pk;
          r = sampleSmall R;
          sd = scaled_stdev E ctx;
          B = productOfPrimes ctx (ctxtPrimes ctx) div (p * 8)
      in if highNoise \<and> parts ctxt \<noteq> [] \<and> p * 8 = 0 then Inl DivisionByZero
         else
           let ctxt = ctxt\<lparr>parts := addNoise E R B sd p highNoise r 0 (parts ctxt)\<rparr>
           in if p \<noteq> 2 \<and> p = 0 then Inl DivisionByZero
              else
                let QmodP = productOfPrimes ctx (primeSet ctxt) mod p;
                    added = (if p = 2 then ptxt else MulMod_ZZX ptxt QmodP p)
                in (case addToFirst E (parts ctxt) added of
                      Inl e \<Rightarrow> Inl e
                    | Inr ps \<Rightarrow>
                        recordNoise E pk highNoise sd p (ctxt\<lparr>parts := ps, ptxtSpace := p\<rparr>)))"

definition Encrypt ::
  "('d, 'f) engine \<Rightarrow> ('d, 'f) draws \<Rightarrow> ('d, 'a) FHEPubKey_scheme \<Rightarrow> bool \<Rightarrow> ZZX \<Rightarrow> int \<Rightarrow> bool
     \<Rightarrow> error + ('d Ctxt \<times> int)"
where
  "Encrypt E R pk own ptxt ptxtSpace0 highNoise =
     (if getTag (getContext pk) = PA_cx_tag then CKKSencrypt E R pk own ptxt ptxtSpace0
      else if \<not> own then Inl AssertionFailed
      else
        (case resolvePtxtSpace ptxtSpace0 (ptxtSpace (pubEncrKey pk)) of
           Inl e \<Rightarrow> Inl e
         | Inr p \<Rightarrow> EncryptBGV E R pk ptxt p highNoise))"



section \<open>Generation of key-switching matrices\<close>

text \<open>
  The loop \<^verbatim>\<open>ksMatrix.noiseVar = RLWE1(ksMatrix.b[i], a[i], toKey, p)\<close> over the digits:
  the list of the \<open>b[i]\<close> and the last variance, converted to \<^verbatim>\<open>xdouble\<close> by the assignment
  (\<open>nv\<close> when there is no digit).
\<close>

fun rlweDigits ::
  "('d, 'f) engine \<Rightarrow> ('d, 'f) draws \<Rightarrow> FHEcontext \<Rightarrow> 'd \<Rightarrow> int \<Rightarrow> nat \<Rightarrow> 'd list \<Rightarrow> real
     \<Rightarrow> error + ('d list \<times> real)"
where
  "rlweDigits E R ctx toKey p i [] nv = Inr ([], nv)"
| "rlweDigits E R ctx toKey p i (ai # as) nv =
     (case RLWE1 E R i ctx ai toKey p of
        Inl e \<Rightarrow> Inl e
      | Inr (bi, v) \<Rightarrow>
          (case rlweDigits E R ctx toKey p (Suc i) as (xval (to_xdouble E v)) of
             Inl e \<Rightarrow> Inl e
           | Inr (bs, nv') \<Rightarrow> Inr (bi # bs, nv')))"

text \<open>
  The loop \<^verbatim>\<open>b[i] += fromKey; fromKey *= productOfPrimes(digits[i])\<close>.
\<close>

fun addMultiples :: "('d, 'f) engine \<Rightarrow> FHEcontext \<Rightarrow> 'd \<Rightarrow> 'd list \<Rightarrow> IndexSet list \<Rightarrow> 'd list" where
  "addMultiples E ctx fromK (bi # bs) (dg # dgs) =
     addD E bi fromK # addMultiples E ctx (scaleD E fromK (productOfPrimes ctx dg)) bs dgs"
| "addMultiples E ctx fromK _ _ = []"

text \<open>
  The plaintext space recorded in a new matrix: 1 for CKKS; for BGV the argument \<open>p0\<close>, or,
  when that is below 2, the bootstrapping plaintext space of a bootstrappable context and
  else the plaintext space \<open>keySpace\<close> of the public encryption key; then \<^verbatim>\<open>assert(p>=2)\<close>.
\<close>

definition matrixPtxtSpace :: "FHEcontext \<Rightarrow> int \<Rightarrow> int \<Rightarrow> error + int" where
  "matrixPtxtSpace ctx keySpace p0 =
     (if getTag ctx = PA_cx_tag then Inr 1
      else
        let p = (if p0 < 2 then (if isBootstrappable ctx then rcPPowR ctx else keySpace)
                 else p0)
        in if \<not> p \<ge> 2 then Inl AssertionFailed else Inr p)"

text \<open>
  The construction of the matrix \<^verbatim>\<open>ksMatrix\<close> from the copy \<open>fromK\<close> of the source key and
  the target key \<open>toKey\<close>: the lines of \<^verbatim>\<open>GenKeySWmatrix\<close> between the two \<^verbatim>\<open>sKeys.at\<close>
  and the final \<^verbatim>\<open>push_back\<close>.
\<close>

definition newKeySWmatrix ::
  "('d, 'f) engine \<Rightarrow> ('d, 'f) draws \<Rightarrow> FHEcontext \<Rightarrow> int \<Rightarrow> 'd \<Rightarrow> 'd \<Rightarrow> int \<Rightarrow> int \<Rightarrow> int \<Rightarrow> int \<Rightarrow> int
     \<Rightarrow> error + 'd KeySwitch"
where
  "newKeySWmatrix E R ctx keySpace fromK toKey fromSPower fromXPower fromIdx toIdx p0 =
     (let fromK = (if fromXPower > 1 then automorph E fromK fromXPower else fromK);
          fromK = (if fromSPower > 1 then Exp E fromK fromSPower else fromK);
          seed = randomBits R;
          n = length (digits ctx);
          a = map (randomize R seed) [0 ..< n]
      in (case matrixPtxtSpace ctx keySpace p0 of
            Inl e \<Rightarrow> Inl e
          | Inr p \<Rightarrow>
              (case rlweDigits E R ctx toKey p 0 a 0 of
                 Inl e \<Rightarrow> Inl e
               | Inr (bs, nv) \<Rightarrow>
                   let fromK = scaleD E fromK (productOfPrimes ctx (specialPrimes ctx));
                       bs = addMultiples E ctx fromK bs (digits ctx)
                   in Inr \<lparr>fromKey = \<lparr>powerOfS = fromSPower, powerOfX = fromXPower,
                                       secretKeyID = fromIdx\<rparr>,
                           toKeyID = toIdx, ptxtSpaceKS = p, bvec = bs,
                           prgSeed = seed, noiseVarKS = nv\<rparr>)))"

text \<open>
  \<^verbatim>\<open>FHESecKey::GenKeySWmatrix\<close>. The result is the key after the call; an exception of
  \<^verbatim>\<open>at\<close> or a failed assertion is an error.
\<close>

definition GenKeySWmatrix ::
  "('d, 'f) engine \<Rightarrow> ('d, 'f) draws \<Rightarrow> 'd FHESecKey \<Rightarrow> int \<Rightarrow> int \<Rightarrow> int \<Rightarrow> int \<Rightarrow> int
     \<Rightarrow> error + 'd FHESecKey"
where
  "GenKeySWmatrix E R sk fromSPower fromXPower fromIdx toIdx p0 =
     (if fromSPower \<le> 0 \<or> fromXPower \<le> 0 then Inr sk
      else if fromSPower = 1 \<and> fromXPower = 1 \<and> fromIdx = toIdx then Inr sk
      else
        (case haveKeySWmatrix sk fromSPower fromXPower fromIdx toIdx of
           Inl e \<Rightarrow> Inl e
         | Inr True \<Rightarrow> Inr sk
         | Inr False \<Rightarrow>
             (case vec_at (sKeys sk) fromIdx of
                Inl e \<Rightarrow> Inl e
              | Inr fromK \<Rightarrow>
                  (case vec_at (sKeys sk) toIdx of
                     Inl e \<Rightarrow> Inl e
                   | Inr toKey \<Rightarrow>
                       (case newKeySWmatrix E R (getContext sk) (ptxtSpace (pubEncrKey sk))
                               fromK toKey fromSPower fromXPower fromIdx toIdx p0 of
                          Inl e \<Rightarrow> Inl e
                        | Inr ksMatrix \<Rightarrow>
                            Inr (sk\<lparr>keySwitching := keySwitching sk @ [ksMatrix]\<rparr>))))))"

section \<open>Decryption\<close>

text \<open>
  The loop of \<^verbatim>\<open>Decrypt\<close> over the ciphertext parts, with the accumulator \<open>ptxt\<close>.
\<close>

fun decryptParts ::
  "('d, 'f) engine \<Rightarrow> 'd list \<Rightarrow> IndexSet \<Rightarrow> 'd CtxtPart list \<Rightarrow> 'd \<Rightarrow> error + 'd"
where
  "decryptParts E sks ptxtPrimes [] ptxt = Inr ptxt"
| "decryptParts E sks ptxtPrimes (part # ps) ptxt =
     (if isOne (skHandle part) then decryptParts E sks ptxtPrimes ps (addD E ptxt (poly part))
      else
        (case vec_at sks (secretKeyID (skHandle part)) of
           Inl e \<Rightarrow> Inl e
         | Inr key \<Rightarrow>
             let extraPrimes = getIndexSet E key - ptxtPrimes;
                 key = removePrimes E key extraPrimes;
                 xPower = powerOfX (skHandle part);
                 sPower = powerOfS (skHandle part);
                 key = (if xPower > 1 then automorph E key xPower else key);
                 key = (if sPower > 1 then Exp E key sPower else key);
                 key = mulD E key (poly part)
             in decryptParts E sks ptxtPrimes ps (addD E ptxt key)))"

text \<open>
  The end of \<^verbatim>\<open>Decrypt\<close>, from the coefficient form \<open>plaintxt\<close> of the accumulator on:
  \<open>Q\<close> is \<^verbatim>\<open>productOfPrimes(ciphertxt.getPrimeSet())\<close> and \<open>p\<close> the plaintext space.
\<close>

definition reducePlaintext :: "ZZX \<Rightarrow> int \<Rightarrow> int \<Rightarrow> error + ZZX" where
  "reducePlaintext plaintxt Q p =
     (if p = 1 then Inr plaintxt
      else
        (case (if p > 2 then
                 (let qModP = Q mod p in
                  if qModP \<noteq> 1 then
                    (case InvMod qModP p of
                       Inl e \<Rightarrow> Inl e
                     | Inr qInv \<Rightarrow> Inr (MulMod_ZZX plaintxt qInv p))
                  else Inr plaintxt)
               else Inr plaintxt) of
           Inl e \<Rightarrow> Inl e
         | Inr plaintxt \<Rightarrow> Inr (PolyRed plaintxt p)))"

text \<open>
  \<^verbatim>\<open>FHESecKey::Decrypt\<close>. \<open>sameContext\<close> is the outcome of the asserted comparison of the
  two contexts. The result is the pair of \<open>plaintxt\<close> and \<open>f\<close>, the plaintext before the
  modular reduction.
\<close>

definition Decrypt ::
  "('d, 'f) engine \<Rightarrow> 'd FHESecKey \<Rightarrow> bool \<Rightarrow> 'd Ctxt \<Rightarrow> error + (ZZX \<times> ZZX)"
where
  "Decrypt E sk sameContext ciphertxt =
     (if \<not> sameContext then Inl AssertionFailed
      else
        let ctx = getContext sk;
            ptxtPrimes = primeSet ciphertxt
        in (case decryptParts E (sKeys sk) ptxtPrimes (parts ciphertxt)
                   (zeroD E ptxtPrimes) of
              Inl e \<Rightarrow> Inl e
            | Inr ptxt \<Rightarrow>
                let plaintxt = toPoly E ptxt;
                    f = plaintxt
                in (case reducePlaintext plaintxt
                           (productOfPrimes ctx (primeSet ciphertxt))
                           (ptxtSpace ciphertxt) of
                      Inl e \<Rightarrow> Inl e
                    | Inr plaintxt \<Rightarrow> Inr (plaintxt, f))))"

section \<open>Encryption with the secret key\<close>

text \<open>
  \<^verbatim>\<open>FHESecKey::skEncrypt\<close>, on the ciphertext object \<open>ctxt\<close> it is given. \<open>own\<close> is the
  outcome of the asserted pointer test.
\<close>

definition skEncrypt ::
  "('d, 'f) engine \<Rightarrow> ('d, 'f) draws \<Rightarrow> 'd FHESecKey \<Rightarrow> bool \<Rightarrow> 'd Ctxt \<Rightarrow> ZZX \<Rightarrow> int \<Rightarrow> int
     \<Rightarrow> error + ('d Ctxt \<times> int)"
where
  "skEncrypt E R sk own ctxt ptxt ptxtSpace0 skIdx =
     (let ctx = getContext sk;
          ckks = (getTag ctx = PA_cx_tag)
      in if \<not> own then Inl AssertionFailed
         else
           let m = getM ctx;
               ptxtSize = (if ckks then ptxtSpace0 else 0);
               p = (if ckks then 1
                    else if ptxtSpace0 < 2 then ptxtSpace (pubEncrKey sk) else ptxtSpace0)
           in if \<not> ckks \<and> \<not> p \<ge> 2 then Inl AssertionFailed
              else
                let ctxt = ctxt\<lparr>ptxtSpace := p\<rparr>;
                    ctxt = ctxt\<lparr>primeSet := ctxtPrimes ctx\<rparr>
                in (case vec_at (sKeys sk) skIdx of
                      Inl e \<Rightarrow> Inl e
                    | Inr sKey \<Rightarrow>
                        (case RLWE E R ctx sKey p None of
                           Inl e \<Rightarrow> Inl e
                         | Inr (c0, c1, nVar) \<Rightarrow>
                             let ctxt = ctxt\<lparr>parts :=
                                          [\<lparr>poly = c0, skHandle = setOne\<rparr>,
                                           \<lparr>poly = c1, skHandle = setBase skIdx\<rparr>]\<rparr>
                             in if ckks then
                                  (let factor = encodeScalingFactor ctx;
                                       precision = getPPowR ctx;
                                       extraFactor =
                                         fceil E (fdiv E (fmul E (fmul E (ofLong E precision)
                                           (fsqrt E nVar)) (flog2 E (ofLong E m)))
                                           (ofLong E factor));
                                       factor' = (if extraFactor > 1 then factor * extraFactor
                                                  else factor);
                                       added = (if extraFactor > 1
                                                then scale_ZZX ptxt extraFactor else ptxt)
                                   in (case addToFirst E (parts ctxt) added of
                                         Inl e \<Rightarrow> Inl e
                                       | Inr ps \<Rightarrow>
                                           let ctxt = ctxt\<lparr>parts := ps\<rparr>;
                                               ctxt = ctxt\<lparr>ratFactor :=
                                                        xval (to_xdouble E (ofLong E factor'))\<rparr>;
                                               rVar = (if getPow2 ctx = 0
                                                       then fdiv E (ofLong E (getPhiM ctx))
                                                              (ofLong E 4)
                                                       else fdiv E (ofLong E m) (ofLong E 4));
                                               ctxt = ctxt\<lparr>noiseVar :=
                                                  xval (to_xdouble E (fadd E nVar
                                                    (fmul E (fmul E (fmul E (fmul E rVar
                                                       (ofLong E factor')) (ofLong E ptxtSize))
                                                       (ofLong E factor')) (ofLong E ptxtSize))))\<rparr>;
                                               ctxt = ctxt\<lparr>highWaterMark :=
                                                             findBaseLevel E ctxt\<rparr>
                                           in Inr (ctxt, factor')))
                                else
                                  (let ctxt = ctxt\<lparr>noiseVar := xval (to_xdouble E nVar)\<rparr>;
                                       ctxt = ctxt\<lparr>highWaterMark := findBaseLevel E ctxt\<rparr>;
                                       ctxt = addConstant E ctxt ptxt
                                   in Inr (ctxt, ptxtSpace ctxt)))))"

section \<open>Reachable powers, in the words of the specification\<close>

text \<open>
  The multipliers of a key: the powers of \<open>X\<close> of the registered matrices with
  \<^verbatim>\<open>fromSPower == 1\<close> and \<^verbatim>\<open>fromKey.secretKeyID == toKeyID == keyId\<close>.
\<close>

definition multipliers :: "int \<Rightarrow> 'd KeySwitch list \<Rightarrow> int set" where
  "multipliers keyId ms =
     {powerOfX (fromKey mat) | mat.
        mat \<in> set ms \<and> toKeyID mat = keyId \<and> powerOfS (fromKey mat) = 1
          \<and> secretKeyID (fromKey mat) = keyId}"

text \<open>
  The powers modulo \<open>m\<close> that are a product of one or more multipliers, and those that are
  a product of any number of multipliers, the empty product 1 included: for multipliers
  that are units modulo \<open>m\<close> the latter is the subgroup they generate.
\<close>

definition productsOf :: "int \<Rightarrow> int set \<Rightarrow> int set" where
  "productsOf m K = {prod_list ks mod m | ks. ks \<noteq> [] \<and> set ks \<subseteq> K}"

definition generated :: "int \<Rightarrow> int set \<Rightarrow> int set" where
  "generated m K = {prod_list ks mod m | ks. set ks \<subseteq> K}"

text \<open>
  For the proofs: the nodes whose table entry is not \<open>-1\<close>, the nodes the search can
  reach from node 1 by one or more edges, and the invariant of the outer loop.
\<close>

definition marked :: "int list \<Rightarrow> int set" where
  "marked tab = {t. 0 \<le> t \<and> t < int (length tab) \<and> tab ! nat t \<noteq> - 1}"

inductive_set reach :: "int \<Rightarrow> int set \<Rightarrow> int set" for m :: int and K :: "int set" where
  first: "k \<in> K \<Longrightarrow> MulMod 1 k m \<in> reach m K"
| step: "t \<in> reach m K \<Longrightarrow> k \<in> K \<Longrightarrow> MulMod t k m \<in> reach m K"

definition bfsInv :: "int \<Rightarrow> int set \<Rightarrow> int list \<Rightarrow> int list \<Rightarrow> bool" where
  "bfsInv m K tab q \<longleftrightarrow>
     length tab = nat m \<and> marked tab \<subseteq> reach m K \<and> set q \<subseteq> insert 1 (marked tab)
     \<and> (\<forall>t \<in> insert 1 (marked tab). t \<in> set q \<or> (\<forall>k\<in>K. MulMod t k m \<in> marked tab))"

section \<open>Reference instances\<close>

text \<open>
  A small engine to run the definitions on concrete inputs: the polynomials of degree zero,
  that is the integers, with fixed draws. Its floating-point unit computes on the real
  numbers, and rounds to a mantissa of 53 bits (\<open>rd53\<close>, to the nearest, a tie away from
  zero) where the result is an \<^verbatim>\<open>xdouble\<close>. \<open>ctx8\<close> has a power-of-two index, \<open>ctx7\<close> has
  not, and \<open>ctx50\<close> is \<open>ctx8\<close> with one ciphertext prime of 50 bits.
\<close>

definition rd53 :: "real \<Rightarrow> real" where
  "rd53 x =
     (if x = 0 then 0
      else let e = \<lfloor>log 2 \<bar>x\<bar>\<rfloor> - 52
           in sgn x * of_int (round (\<bar>x\<bar> / 2 powr of_int e)) * 2 powr of_int e)"

definition xround :: "real \<Rightarrow> xdouble" where
  "xround x = Abs_xdouble (if x \<in> XD then x else rd53 x)"

definition scalarEngine :: "(int, real) engine" where
  "scalarEngine =
     \<lparr>zeroD = (\<lambda>s. 0), addD = (\<lambda>x y. x + y), subD = (\<lambda>x y. x - y), mulD = (\<lambda>x y. x * y),
      MulNoMatch = (\<lambda>x y. x * y), scaleD = (\<lambda>x a. x * a),
      addPoly = (\<lambda>x f. x + (case f of [] \<Rightarrow> 0 | c # _ \<Rightarrow> c)),
      automorph = (\<lambda>x k. x), Exp = (\<lambda>x k. x ^ nat k), getIndexSet = (\<lambda>x. {}),
      removePrimes = (\<lambda>x s. x), toPoly = (\<lambda>x. [x]), eqD = (\<lambda>x y. x = y),
      findBaseLevel = (\<lambda>c. 0), addConstant = (\<lambda>c f. c), equalsTo = (\<lambda>c c'. c = c'),
      to_double = (\<lambda>x. x), ofLong = real_of_int,
      fadd = (\<lambda>x y. x + y), fsub = (\<lambda>x y. x - y), fmul = (\<lambda>x y. x * y),
      fdiv = (\<lambda>x y. x / y), fsqrt = sqrt, flog = ln, flog2 = log 2, fceil = ceiling,
      to_xdouble = xround, xadd = (\<lambda>x y. xround (x + y)), xmul = (\<lambda>x y. xround (x * y)),
      xexp = (\<lambda>x. xround (exp x)),
      logOfProduct = (\<lambda>ctx s. ln (real_of_int (productOfPrimes ctx s)))\<rparr>"

definition fixedDraws :: "(int, real) draws" where
  "fixedDraws =
     \<lparr>sampleSmall = 1, sampleGaussian = (\<lambda>sd i. 1), sampleGaussianBounded = (\<lambda>sd i. 1),
      sampleUniform = (\<lambda>B i. B), randomBits = 5, randomize = (\<lambda>seed i. seed + int i),
      randomizeFresh = 3\<rparr>"

definition ctx8 :: FHEcontext where
  "ctx8 = \<lparr>getM = 8, getPhiM = 4, getPow2 = 3, stdev = 3, getTag = PA_zz_p_tag,
           getPPowR = 5, encodeScalingFactor = 1, ctxtPrimes = {0}, specialPrimes = {1},
           digits = [{0}],
           productOfPrimes = (\<lambda>s. if s = {0} then 97 else if s = {1} then 113 else 1),
           isBootstrappable = False, rcPPowR = 25\<rparr>"

definition ctx7 :: FHEcontext where
  "ctx7 = \<lparr>getM = 7, getPhiM = 6, getPow2 = 0, stdev = 3, getTag = PA_zz_p_tag,
           getPPowR = 5, encodeScalingFactor = 1, ctxtPrimes = {0}, specialPrimes = {1},
           digits = [{0}],
           productOfPrimes = (\<lambda>s. if s = {0} then 29 else if s = {1} then 43 else 1),
           isBootstrappable = False, rcPPowR = 25\<rparr>"


definition zeroEnc :: "int \<Rightarrow> int Ctxt" where
  "zeroEnc p =
     \<lparr>parts = [\<lparr>poly = 10, skHandle = setOne\<rparr>, \<lparr>poly = 3, skHandle = setBase 0\<rparr>],
      primeSet = {0}, ptxtSpace = p, noiseVar = 1, highWaterMark = 0, ratFactor = 1\<rparr>"

definition ksMat :: "int \<Rightarrow> int \<Rightarrow> real \<Rightarrow> int KeySwitch" where
  "ksMat k toID v =
     \<lparr>fromKey = \<lparr>powerOfS = 1, powerOfX = k, secretKeyID = toID\<rparr>, toKeyID = toID,
      ptxtSpaceKS = 5, bvec = [4], prgSeed = 9, noiseVarKS = v\<rparr>"

definition secKey :: "FHEcontext \<Rightarrow> int KeySwitch list \<Rightarrow> int FHESecKey" where
  "secKey ctx ms =
     \<lparr>getContext = ctx, contextAddr = 0, pubEncrKey = zeroEnc 5, skSizes = [64],
      keySwitching = ms, keySwitchMap = [], KS_strategy = [], recryptKeyID = - 1,
      recryptEkey = zeroEnc 5, sKeys = [2]\<rparr>"

section \<open>Equality of key-switching matrices and of public keys\<close>

lemma vec_differs_nth:
  "length xs = length ys \<Longrightarrow>
     vec_differs neq xs ys \<longleftrightarrow> (\<exists>i<length xs. neq (xs ! i) (ys ! i))"
proof (induction xs arbitrary: ys)
  case Nil
  then show ?case by simp
next
  case (Cons x xs)
  then obtain y ys' where ys: "ys = y # ys'" by (cases ys) auto
  with Cons show ?case by (auto simp: less_Suc_eq_0_disj)
qed

lemma vec_differs_refl: "(\<And>x. \<not> neq x x) \<Longrightarrow> \<not> vec_differs neq xs xs"
  by (induction xs) auto

text \<open>
  Claim C9. \<^verbatim>\<open>KeySwitch::operator==\<close> does not look at \<^verbatim>\<open>noiseVar\<close>: two matrices that
  agree on \<^verbatim>\<open>fromKey\<close>, \<^verbatim>\<open>toKeyID\<close>, \<^verbatim>\<open>ptxtSpace\<close>, \<^verbatim>\<open>prgSeed\<close> and, entry by entry, on the
  digit vector \<^verbatim>\<open>b\<close> are equal whatever their two noise estimates \<open>v\<close> and \<open>w\<close> are.
\<close>

theorem KeySwitch_eq_ignores_noiseVar:
  assumes "fromKey a = fromKey c" and "toKeyID a = toKeyID c"
    and "ptxtSpaceKS a = ptxtSpaceKS c" and "prgSeed a = prgSeed c"
    and "length (bvec a) = length (bvec c)"
    and "\<forall>i<length (bvec a). eqD E (bvec a ! i) (bvec c ! i)"
  shows "KeySwitch_eq E same (a\<lparr>noiseVarKS := v\<rparr>) (c\<lparr>noiseVarKS := w\<rparr>)"
  using assms by (auto simp add: KeySwitch_eq_def vec_differs_nth)

theorem KeySwitch_eq_ignores_noiseVar_witness:
  "noiseVarKS (ksMat 3 0 1) \<noteq> noiseVarKS (ksMat 3 0 2)
   \<and> KeySwitch_eq scalarEngine False (ksMat 3 0 1) (ksMat 3 0 2)"
  using KeySwitch_eq_ignores_noiseVar [of "ksMat 3 0 1" "ksMat 3 0 2" scalarEngine False 1 2]
  by (simp add: ksMat_def scalarEngine_def)

text \<open>
  Claim C8. \<^verbatim>\<open>FHEPubKey::operator==\<close> answers \<^verbatim>\<open>true\<close> when the two registries of
  key-switching matrices have different sizes, as soon as everything compared before
  them (the context, the encryption of zero, the sizes of the secret keys) is equal.
\<close>

theorem FHEPubKey_eq_registry_sizes:
  assumes "contextAddr a = contextAddr c"
    and "equalsTo E (pubEncrKey a) (pubEncrKey c)"
    and "skSizes a = skSizes c"
    and "length (keySwitching a) \<noteq> length (keySwitching c)"
  shows "FHEPubKey_eq E unk same a c = Inr True"
  using assms by (simp add: FHEPubKey_eq_def vec_differs_refl)

theorem FHEPubKey_eq_registry_sizes_witness:
  "length (keySwitching (secKey ctx7 [])) \<noteq> length (keySwitching (secKey ctx7 [ksMat 3 0 1]))
   \<and> FHEPubKey_eq scalarEngine 0 False (secKey ctx7 []) (secKey ctx7 [ksMat 3 0 1]) = Inr True"
  using FHEPubKey_eq_registry_sizes
          [of "secKey ctx7 []" "secKey ctx7 [ksMat 3 0 1]" scalarEngine 0 False]
  by (simp add: secKey_def scalarEngine_def)

section \<open>The approximate variant never reaches the high-noise path\<close>

text \<open>
  Claim C10. In the approximate (CKKS) variant \<^verbatim>\<open>Encrypt\<close> hands over to
  \<^verbatim>\<open>CKKSencrypt\<close> before it looks at \<^verbatim>\<open>highNoise\<close>: with the same draws the result is
  the same for \<^verbatim>\<open>highNoise=true\<close> and \<^verbatim>\<open>highNoise=false\<close>, for every plaintext and every
  \<^verbatim>\<open>ptxtSpace\<close> argument.
\<close>

theorem Encrypt_CKKS_ignores_highNoise:
  assumes "getTag (getContext pk) = PA_cx_tag"
  shows "Encrypt E R pk own ptxt p True = Encrypt E R pk own ptxt p False
         \<and> Encrypt E R pk own ptxt p highNoise = CKKSencrypt E R pk own ptxt p"
  using assms by (simp add: Encrypt_def)

theorem Encrypt_CKKS_ignores_highNoise_witness:
  "getTag (getContext (secKey (ctx8\<lparr>getTag := PA_cx_tag\<rparr>) [])) = PA_cx_tag
   \<and> Encrypt scalarEngine fixedDraws (secKey (ctx8\<lparr>getTag := PA_cx_tag\<rparr>) []) True [1] 1 True
     = Encrypt scalarEngine fixedDraws (secKey (ctx8\<lparr>getTag := PA_cx_tag\<rparr>) []) True [1] 1 False"
  using Encrypt_CKKS_ignores_highNoise
          [of "secKey (ctx8\<lparr>getTag := PA_cx_tag\<rparr>) []" scalarEngine fixedDraws True "[1]" 1]
  by (simp add: secKey_def)

section \<open>The modular reduction at the end of decryption\<close>

lemma normalize_ZZX_subset: "set (normalize_ZZX f) \<subseteq> set f"
  by (auto simp: normalize_ZZX_def dest: set_dropWhileD)

lemma PolyRed_range: "0 < q \<Longrightarrow> x \<in> set (PolyRed f q) \<Longrightarrow> 0 \<le> x \<and> x < q"
  using normalize_ZZX_subset [of "map (\<lambda>c. c mod q) f"] by (auto simp: PolyRed_def)

lemma InvMod_coprime:
  assumes "coprime a n" "1 < n"
  shows "\<exists>x. InvMod a n = Inr x \<and> 0 \<le> x \<and> x < n \<and> (a * x) mod n = 1"
proof -
  from bezout_int [of a n] assms(1) obtain u v where uv: "u * a + v * n = 1" by auto
  let ?x = "u mod n"
  have "(a * ?x) mod n = (a * u) mod n" by (simp add: mod_mult_right_eq)
  also have "a * u = 1 - v * n" using uv by (simp add: algebra_simps)
  also have "(1 - v * n) mod n = 1 mod n" by (metis mod_diff_right_eq mod_mult_self2_is_0 diff_zero mod_mod_trivial mult.commute)
  also have "\<dots> = 1" using assms(2) by simp
  finally have x1: "(a * ?x) mod n = 1" .
  have xr: "0 \<le> ?x" "?x < n" using assms(2) by simp_all
  have "?x \<in> int ` {0 ..< nat n}"
    by (rule image_eqI [where x = "nat ?x"]) (use xr in auto)
  then have "?x \<in> set (map int [0 ..< nat n])" by simp
  with x1 have ex: "\<exists>y \<in> set (map int [0 ..< nat n]). (a * y) mod n = 1" by blast
  then obtain y where f: "find (\<lambda>x. (a * x) mod n = 1) (map int [0 ..< nat n]) = Some y"
    by (cases "find (\<lambda>x. (a * x) mod n = 1) (map int [0 ..< nat n])") (auto simp: find_None_iff)
  then have y: "(a * y) mod n = 1" "y \<in> set (map int [0 ..< nat n])"
    by (auto simp: find_Some_iff)
  then have "0 \<le> y" "y < n" by auto
  with f y show ?thesis by (simp add: InvMod_def)
qed


lemma reducePlaintext_coprime:
  assumes p: "2 \<le> p" and cop: "coprime Q p"
  shows "\<exists>y. reducePlaintext f Q p = Inr y
           \<and> (Q mod p \<noteq> 1 \<longrightarrow>
                 (\<exists>qInv. 0 \<le> qInv \<and> qInv < p \<and> (Q * qInv) mod p = 1
                    \<and> y = PolyRed (MulMod_ZZX f qInv p) p))
           \<and> (Q mod p = 1 \<longrightarrow> y = PolyRed f p)
           \<and> (\<forall>x\<in>set y. 0 \<le> x \<and> x < p)"
proof (cases "Q mod p = 1")
  case True
  with p have "reducePlaintext f Q p = Inr (PolyRed f p)"
    by (simp add: reducePlaintext_def)
  with True p show ?thesis using PolyRed_range [of p _ f] by auto
next
  case False
  have p2: "p \<noteq> 2"
  proof
    assume "p = 2"
    with cop have "odd Q" by simp
    then have "Q mod 2 = 1" by presburger
    with False \<open>p = 2\<close> show False by simp
  qed
  with p have gt: "2 < p" by simp
  have "p \<noteq> 0" using gt by simp
  then have "coprime (Q mod p) p" using cop by (simp add: coprime_mod_left_iff)
  from InvMod_coprime [OF this] gt obtain x where
    x: "InvMod (Q mod p) p = Inr x" "0 \<le> x" "x < p" "((Q mod p) * x) mod p = 1"
    by auto
  from x(4) have inv: "(Q * x) mod p = 1" by (simp add: mod_mult_left_eq)
  from gt False x(1) have "reducePlaintext f Q p = Inr (PolyRed (MulMod_ZZX f x p) p)"
    by (simp add: reducePlaintext_def Let_def)
  with False x(2,3) inv p show ?thesis
    using PolyRed_range [of p _ "MulMod_ZZX f x p"] by auto
qed

text \<open>
  Claim C2. Let the ciphertext have a plaintext modulus \<open>p \<ge> 2\<close> and let \<open>Q\<close>, the product of
  its active primes, be invertible modulo \<open>p\<close>. When the loop over the parts has produced
  the accumulator \<open>acc\<close>, \<^verbatim>\<open>Decrypt\<close> returns; if \<open>Q\<close> is not congruent to 1 modulo \<open>p\<close>, the
  returned plaintext is the coefficient form of \<open>acc\<close> multiplied by the inverse of \<open>Q\<close>
  modulo \<open>p\<close> and then reduced; in all cases every coefficient of the returned plaintext lies
  in \<open>[0, p)\<close>. The second component \<open>f\<close> is the plaintext before the reduction.
\<close>

theorem Decrypt_reduces:
  assumes acc: "decryptParts E (sKeys sk) (primeSet c) (parts c) (zeroD E (primeSet c)) = Inr acc"
    and p: "2 \<le> ptxtSpace c"
    and cop: "coprime (productOfPrimes (getContext sk) (primeSet c)) (ptxtSpace c)"
  shows "\<exists>y. Decrypt E sk True c = Inr (y, toPoly E acc)
           \<and> (productOfPrimes (getContext sk) (primeSet c) mod ptxtSpace c \<noteq> 1 \<longrightarrow>
                 (\<exists>qInv. 0 \<le> qInv \<and> qInv < ptxtSpace c
                    \<and> (productOfPrimes (getContext sk) (primeSet c) * qInv) mod ptxtSpace c = 1
                    \<and> y = PolyRed (MulMod_ZZX (toPoly E acc) qInv (ptxtSpace c)) (ptxtSpace c)))
           \<and> (productOfPrimes (getContext sk) (primeSet c) mod ptxtSpace c = 1 \<longrightarrow>
                 y = PolyRed (toPoly E acc) (ptxtSpace c))
           \<and> (\<forall>x\<in>set y. 0 \<le> x \<and> x < ptxtSpace c)"
proof -
  from reducePlaintext_coprime [OF p cop, of "toPoly E acc"] obtain y where
    y: "reducePlaintext (toPoly E acc) (productOfPrimes (getContext sk) (primeSet c))
          (ptxtSpace c) = Inr y"
    and rest: "(productOfPrimes (getContext sk) (primeSet c) mod ptxtSpace c \<noteq> 1 \<longrightarrow>
                 (\<exists>qInv. 0 \<le> qInv \<and> qInv < ptxtSpace c
                    \<and> (productOfPrimes (getContext sk) (primeSet c) * qInv) mod ptxtSpace c = 1
                    \<and> y = PolyRed (MulMod_ZZX (toPoly E acc) qInv (ptxtSpace c)) (ptxtSpace c)))
           \<and> (productOfPrimes (getContext sk) (primeSet c) mod ptxtSpace c = 1 \<longrightarrow>
                 y = PolyRed (toPoly E acc) (ptxtSpace c))
           \<and> (\<forall>x\<in>set y. 0 \<le> x \<and> x < ptxtSpace c)"
    by blast
  from acc y have "Decrypt E sk True c = Inr (y, toPoly E acc)"
    by (simp add: Decrypt_def Let_def)
  with rest show ?thesis by blast
qed

theorem Decrypt_reduces_witness:
  "decryptParts scalarEngine (sKeys (secKey ctx7 [])) (primeSet (zeroEnc 5)) (parts (zeroEnc 5))
      (zeroD scalarEngine (primeSet (zeroEnc 5))) = Inr 16
   \<and> 2 \<le> ptxtSpace (zeroEnc 5)
   \<and> productOfPrimes (getContext (secKey ctx7 [])) (primeSet (zeroEnc 5)) mod ptxtSpace (zeroEnc 5) = 4
   \<and> (\<exists>y. Decrypt scalarEngine (secKey ctx7 []) True (zeroEnc 5) = Inr (y, [16])
          \<and> (\<forall>x\<in>set y. 0 \<le> x \<and> x < 5))"
proof -
  have a: "decryptParts scalarEngine (sKeys (secKey ctx7 [])) (primeSet (zeroEnc 5))
      (parts (zeroEnc 5)) (zeroD scalarEngine (primeSet (zeroEnc 5))) = Inr 16"
    by (simp add: secKey_def zeroEnc_def scalarEngine_def isOne_def setOne_def setBase_def
          vec_at_def Let_def)
  have b: "2 \<le> ptxtSpace (zeroEnc 5)" by (simp add: zeroEnc_def)
  have q: "productOfPrimes (getContext (secKey ctx7 [])) (primeSet (zeroEnc 5)) = 29"
    by (simp add: secKey_def zeroEnc_def ctx7_def)
  have p5: "ptxtSpace (zeroEnc 5) = 5" by (simp add: zeroEnc_def)
  have "coprime (29::int) 5" by code_simp
  then have c: "coprime (productOfPrimes (getContext (secKey ctx7 [])) (primeSet (zeroEnc 5)))
      (ptxtSpace (zeroEnc 5))"
    by (simp add: q p5)
  have t: "toPoly scalarEngine 16 = [16]" by (simp add: scalarEngine_def)
  from Decrypt_reduces [OF a b c] obtain y where
    "Decrypt scalarEngine (secKey ctx7 []) True (zeroEnc 5) = Inr (y, toPoly scalarEngine 16)"
    "\<forall>x\<in>set y. 0 \<le> x \<and> x < ptxtSpace (zeroEnc 5)"
    by blast
  then have "\<exists>y. Decrypt scalarEngine (secKey ctx7 []) True (zeroEnc 5) = Inr (y, [16])
          \<and> (\<forall>x\<in>set y. 0 \<le> x \<and> x < 5)"
    by (auto simp: t p5)
  moreover have "productOfPrimes (getContext (secKey ctx7 [])) (primeSet (zeroEnc 5))
      mod ptxtSpace (zeroEnc 5) = 4"
    by (simp add: q p5)
  ultimately show ?thesis using a b by blast
qed

section \<open>The numbers an xdouble holds\<close>

text \<open>
  An integer of at most 53 bits is such a number, the rounding of the reference engine
  gives such a number and keeps the numbers that need no rounding, and an odd integer
  above \<open>2 ^ 53\<close> divided by 8 is no such number.
\<close>

lemma int_XD: "\<bar>n\<bar> \<le> 2 ^ 53 \<Longrightarrow> real_of_int n \<in> XD"
  unfolding XD_def by (intro CollectI exI [of _ n] exI [of _ 0]) simp


lemma xval_xround: "x \<in> XD \<Longrightarrow> xval (xround x) = x"
  by (simp add: xround_def Abs_xdouble_inverse)

lemma rd53_XD: "rd53 x \<in> XD"
proof (cases "x = 0")
  case True
  then show ?thesis using int_XD [of 0] by (simp add: rd53_def)
next
  case False
  define L where "L = \<lfloor>log 2 \<bar>x\<bar>\<rfloor>"
  define e where "e = L - 52"
  define y where "y = \<bar>x\<bar> / 2 powr of_int e"
  define M where "M = round y"
  from False have ax: "0 < \<bar>x\<bar>" by simp
  have "of_int L \<le> log 2 \<bar>x\<bar>" unfolding L_def by simp
  then have "2 powr of_int L \<le> 2 powr log 2 \<bar>x\<bar>" by simp
  with ax have lo: "2 powr of_int L \<le> \<bar>x\<bar>" by simp
  have "log 2 \<bar>x\<bar> < of_int L + 1" unfolding L_def by linarith
  then have "2 powr log 2 \<bar>x\<bar> < 2 powr (of_int L + 1)" by simp
  with ax have hi: "\<bar>x\<bar> < 2 powr (of_int L + 1)" by simp
  have "real_of_int L + 1 = of_int e + 53" unfolding e_def by simp
  then have "(2::real) powr (of_int L + 1) = 2 powr of_int e * 2 powr 53"
    by (simp only: powr_add)
  also have "(2::real) powr 53 = 2 ^ 53" by simp
  finally have "\<bar>x\<bar> < 2 powr of_int e * 2 ^ 53" using hi by simp
  then have y1: "y < 2 ^ 53" unfolding y_def by (simp add: field_simps)
  have y0: "0 \<le> y" unfolding y_def by simp
  have M0: "0 \<le> M" unfolding M_def round_def using y0 by simp
  have "y + 1 / 2 < 2 ^ 53 + 1" using y1 by simp
  then have "\<lfloor>y + 1 / 2\<rfloor> < 2 ^ 53 + 1" by (simp add: floor_less_iff)
  then have M1: "M \<le> 2 ^ 53" unfolding M_def round_def by simp
  define m where "m = (if 0 < x then M else - M)"
  have mb: "\<bar>m\<bar> \<le> 2 ^ 53" using M0 M1 unfolding m_def by simp
  have ms: "sgn x * of_int M = real_of_int m" using False unfolding m_def by (simp add: sgn_if)
  have val: "rd53 x = of_int m * 2 powr of_int e"
    using False ms by (simp add: rd53_def Let_def e_def L_def M_def y_def)
  show ?thesis
  proof (cases "0 \<le> e")
    case True
    then have "(2::real) powr of_int e = 2 ^ nat e" by (simp add: powr_real_of_int)
    with val have "rd53 x = of_int m * 2 ^ nat e" by simp
    with mb show ?thesis unfolding XD_def by blast
  next
    case False
    then have "(2::real) powr of_int e = inverse (2 ^ nat (- e))" by (simp add: powr_real_of_int)
    with val have "rd53 x = of_int m / 2 ^ nat (- e)" by (simp add: divide_inverse)
    with mb show ?thesis unfolding XD_def by blast
  qed
qed

lemma xval_xround_int: "\<bar>n\<bar> \<le> 2 ^ 53 \<Longrightarrow> xval (xround (real_of_int n)) = real_of_int n"
  by (rule xval_xround) (rule int_XD)

section \<open>Public-key encryption: plaintext space and high noise\<close>



















lemma gcd_5_5: "gcd (5::int) 5 = 5" by simp



section \<open>Generating a matrix twice\<close>

lemma vec_at_append: "vec_at xs i = Inr x \<Longrightarrow> vec_at (xs @ ys) i = Inr x"
  by (auto simp: vec_at_def nth_append split: if_splits)

lemma vec_at_mem: "vec_at xs i = Inr x \<Longrightarrow> x \<in> set xs"
  by (auto simp: vec_at_def split: if_splits)

lemma vec_at_nonneg: "vec_at xs i = Inr x \<Longrightarrow> 0 \<le> i"
  by (auto simp: vec_at_def split: if_splits)

lemma linearSearch_hit:
  assumes "toKeyID M = toIdx" "fromKey M = h" "M \<in> set ms"
  shows "toKeyID (linearSearch ms h toIdx) = toIdx"
proof (cases "find (\<lambda>ks. toKeyID ks = toIdx \<and> fromKey ks = h) ms")
  case None
  with assms show ?thesis by (auto simp: find_None_iff)
next
  case (Some y)
  then have "toKeyID y = toIdx" by (auto simp: find_Some_iff)
  with Some show ?thesis by (simp add: linearSearch_def)
qed

lemma getKeySWmatrix_cases:
  assumes "getKeySWmatrix pk h toIdx = Inr m0"
  shows "(m0 \<in> set (keySwitching pk) \<and> fromKey m0 = h
            \<and> (\<forall>M. getKeySWmatrix (pk\<lparr>keySwitching := keySwitching pk @ [M]\<rparr>) h toIdx = Inr m0))
         \<or> (m0 = linearSearch (keySwitching pk) h toIdx
            \<and> (\<forall>M. getKeySWmatrix (pk\<lparr>keySwitching := keySwitching pk @ [M]\<rparr>) h toIdx
                     = Inr (linearSearch (keySwitching pk @ [M]) h toIdx)))"
proof (cases "powerOfS h = 1 \<and> secretKeyID h = toIdx \<and> toIdx < int (length (keySwitchMap pk))")
  case False
  with assms show ?thesis by (auto simp: getKeySWmatrix_def)
next
  case True
  with assms obtain row where row: "vec_at (keySwitchMap pk) toIdx = Inr row"
    by (cases "vec_at (keySwitchMap pk) toIdx") (auto simp: getKeySWmatrix_def)
  with assms True obtain matIdx where mi: "vec_at row (powerOfX h) = Inr matIdx"
    by (cases "vec_at row (powerOfX h)") (auto simp: getKeySWmatrix_def)
  show ?thesis
  proof (cases "matIdx \<ge> 0")
    case False
    with assms True row mi show ?thesis by (auto simp: getKeySWmatrix_def)
  next
    case ge: True
    with assms True row mi obtain matrix where
      mx: "vec_at (keySwitching pk) matIdx = Inr matrix"
      by (cases "vec_at (keySwitching pk) matIdx") (auto simp: getKeySWmatrix_def)
    then have mx': "vec_at (keySwitching pk @ [M]) matIdx = Inr matrix" for M
      by (rule vec_at_append)
    show ?thesis
    proof (cases "fromKey matrix = h")
      case True
      with assms \<open>powerOfS h = 1 \<and> secretKeyID h = toIdx \<and> toIdx < int (length (keySwitchMap pk))\<close>
        row mi ge mx mx' vec_at_mem [OF mx]
      show ?thesis by (auto simp: getKeySWmatrix_def)
    next
      case False
      with assms \<open>powerOfS h = 1 \<and> secretKeyID h = toIdx \<and> toIdx < int (length (keySwitchMap pk))\<close>
        row mi ge mx mx'
      show ?thesis by (auto simp: getKeySWmatrix_def)
    qed
  qed
qed

lemma haveKeySWmatrix_after_push:
  assumes inv: "\<forall>ks \<in> set (keySwitching pk). 0 \<le> toKeyID ks"
    and no: "haveKeySWmatrix pk s x fi ti = Inr False"
    and M: "fromKey M = \<lparr>powerOfS = s, powerOfX = x, secretKeyID = fi\<rparr>" "toKeyID M = ti"
    and ti: "0 \<le> ti"
  shows "haveKeySWmatrix (pk\<lparr>keySwitching := keySwitching pk @ [M]\<rparr>) s x fi ti = Inr True"
proof -
  let ?h = "\<lparr>powerOfS = s, powerOfX = x, secretKeyID = fi\<rparr>"
  from no obtain m0 where m0: "getKeySWmatrix pk ?h ti = Inr m0" and neg: "\<not> 0 \<le> toKeyID m0"
    by (cases "getKeySWmatrix pk ?h ti") (auto simp: haveKeySWmatrix_def)
  from getKeySWmatrix_cases [OF m0] neg inv
  have "getKeySWmatrix (pk\<lparr>keySwitching := keySwitching pk @ [M]\<rparr>) ?h ti
          = Inr (linearSearch (keySwitching pk @ [M]) ?h ti)"
    by blast
  moreover have "toKeyID (linearSearch (keySwitching pk @ [M]) ?h ti) = ti"
    by (rule linearSearch_hit [OF M(2) M(1)]) simp
  ultimately show ?thesis using ti by (simp add: haveKeySWmatrix_def)
qed

lemma newKeySWmatrix_fields:
  assumes "newKeySWmatrix E R ctx keySpace fromK toKey fromSPower fromXPower fromIdx toIdx p0
             = Inr M"
  shows "fromKey M = \<lparr>powerOfS = fromSPower, powerOfX = fromXPower, secretKeyID = fromIdx\<rparr>
         \<and> toKeyID M = toIdx"
proof -
  from assms obtain p where p: "matrixPtxtSpace ctx keySpace p0 = Inr p"
    by (cases "matrixPtxtSpace ctx keySpace p0") (auto simp: newKeySWmatrix_def Let_def)
  from assms p obtain bs nv where
    "rlweDigits E R ctx toKey p 0 (map (randomize R (randomBits R)) [0 ..< length (digits ctx)]) 0
       = Inr (bs, nv)"
    by (cases "rlweDigits E R ctx toKey p 0
                 (map (randomize R (randomBits R)) [0 ..< length (digits ctx)]) 0")
       (auto simp: newKeySWmatrix_def Let_def)
  with assms p show ?thesis by (auto simp: newKeySWmatrix_def Let_def)
qed

lemma GenKeySWmatrix_early:
  "fromSPower \<le> 0 \<or> fromXPower \<le> 0 \<or> (fromSPower = 1 \<and> fromXPower = 1 \<and> fromIdx = toIdx)
     \<or> haveKeySWmatrix sk fromSPower fromXPower fromIdx toIdx = Inr True
   \<Longrightarrow> GenKeySWmatrix E R sk fromSPower fromXPower fromIdx toIdx p0 = Inr sk"
  by (auto simp: GenKeySWmatrix_def)

lemma GenKeySWmatrix_push:
  assumes "\<not> (fromSPower \<le> 0 \<or> fromXPower \<le> 0)"
    and "\<not> (fromSPower = 1 \<and> fromXPower = 1 \<and> fromIdx = toIdx)"
    and "haveKeySWmatrix sk fromSPower fromXPower fromIdx toIdx \<noteq> Inr True"
    and "GenKeySWmatrix E R sk fromSPower fromXPower fromIdx toIdx p0 = Inr sk1"
  shows "haveKeySWmatrix sk fromSPower fromXPower fromIdx toIdx = Inr False
       \<and> 0 \<le> toIdx
       \<and> (\<exists>M. sk1 = sk\<lparr>keySwitching := keySwitching sk @ [M]\<rparr>
             \<and> fromKey M = \<lparr>powerOfS = fromSPower, powerOfX = fromXPower, secretKeyID = fromIdx\<rparr>
             \<and> toKeyID M = toIdx)"
proof -
  from assms obtain hv where hv: "haveKeySWmatrix sk fromSPower fromXPower fromIdx toIdx = Inr hv"
    by (cases "haveKeySWmatrix sk fromSPower fromXPower fromIdx toIdx")
       (auto simp: GenKeySWmatrix_def)
  with assms(3) have hf: "haveKeySWmatrix sk fromSPower fromXPower fromIdx toIdx = Inr False"
    by simp
  from assms hf obtain fromK where fk: "vec_at (sKeys sk) fromIdx = Inr fromK"
    by (cases "vec_at (sKeys sk) fromIdx") (auto simp: GenKeySWmatrix_def)
  from assms hf fk obtain toKey where tk: "vec_at (sKeys sk) toIdx = Inr toKey"
    by (cases "vec_at (sKeys sk) toIdx") (auto simp: GenKeySWmatrix_def)
  from assms(1,2,4) hf fk tk obtain M where
    nm: "newKeySWmatrix E R (getContext sk) (ptxtSpace (pubEncrKey sk))
           fromK toKey fromSPower fromXPower fromIdx toIdx p0 = Inr M"
    and s1: "sk1 = sk\<lparr>keySwitching := keySwitching sk @ [M]\<rparr>"
    by (cases "newKeySWmatrix E R (getContext sk) (ptxtSpace (pubEncrKey sk))
           fromK toKey fromSPower fromXPower fromIdx toIdx p0")
       (auto simp: GenKeySWmatrix_def)
  from newKeySWmatrix_fields [OF nm] s1 have
    "\<exists>M. sk1 = sk\<lparr>keySwitching := keySwitching sk @ [M]\<rparr>
        \<and> fromKey M = \<lparr>powerOfS = fromSPower, powerOfX = fromXPower, secretKeyID = fromIdx\<rparr>
        \<and> toKeyID M = toIdx"
    by blast
  with hf vec_at_nonneg [OF tk] show ?thesis by blast
qed

text \<open>
  Claim C5. On a key whose registered matrices all have a non-negative \<^verbatim>\<open>toKeyID\<close> (what
  every matrix pushed by \<^verbatim>\<open>GenKeySWmatrix\<close> has), when a call of \<^verbatim>\<open>GenKeySWmatrix\<close> has
  returned, a second call with the same \<open>(fromSPower, fromXPower, fromIdx, toIdx)\<close>, whatever
  its random draws and its argument \<open>p\<close>, returns and leaves the key as it is: the registry
  has the same matrices, none appended, none modified.
\<close>

theorem GenKeySWmatrix_idempotent:
  assumes inv: "\<forall>ks \<in> set (keySwitching sk). 0 \<le> toKeyID ks"
    and first: "GenKeySWmatrix E R sk fromSPower fromXPower fromIdx toIdx p0 = Inr sk1"
  shows "GenKeySWmatrix E R' sk1 fromSPower fromXPower fromIdx toIdx p1 = Inr sk1"
proof (cases "fromSPower \<le> 0 \<or> fromXPower \<le> 0
                \<or> (fromSPower = 1 \<and> fromXPower = 1 \<and> fromIdx = toIdx)
                \<or> haveKeySWmatrix sk fromSPower fromXPower fromIdx toIdx = Inr True")
  case True
  from GenKeySWmatrix_early [OF True, of E R p0] first have "sk1 = sk" by simp
  with GenKeySWmatrix_early [OF True, of E R' p1] show ?thesis by simp
next
  case False
  with GenKeySWmatrix_push [OF _ _ _ first] obtain M where
    hf: "haveKeySWmatrix sk fromSPower fromXPower fromIdx toIdx = Inr False"
    and ti: "0 \<le> toIdx"
    and sk1: "sk1 = sk\<lparr>keySwitching := keySwitching sk @ [M]\<rparr>"
    and M: "fromKey M = \<lparr>powerOfS = fromSPower, powerOfX = fromXPower, secretKeyID = fromIdx\<rparr>"
       "toKeyID M = toIdx"
    by blast
  from haveKeySWmatrix_after_push [OF inv hf M ti] sk1
  have "haveKeySWmatrix sk1 fromSPower fromXPower fromIdx toIdx = Inr True" by simp
  then show ?thesis by (simp add: GenKeySWmatrix_early)
qed


lemma GenKeySWmatrix_keeps_registry_wellformed:
  assumes inv: "\<forall>ks \<in> set (keySwitching sk). 0 \<le> toKeyID ks"
    and first: "GenKeySWmatrix E R sk fromSPower fromXPower fromIdx toIdx p0 = Inr sk1"
  shows "\<forall>ks \<in> set (keySwitching sk1). 0 \<le> toKeyID ks"
proof (cases "fromSPower \<le> 0 \<or> fromXPower \<le> 0
                \<or> (fromSPower = 1 \<and> fromXPower = 1 \<and> fromIdx = toIdx)
                \<or> haveKeySWmatrix sk fromSPower fromXPower fromIdx toIdx = Inr True")
  case True
  from GenKeySWmatrix_early [OF True, of E R p0] first inv show ?thesis by simp
next
  case False
  with GenKeySWmatrix_push [OF _ _ _ first] inv show ?thesis by auto
qed

lemma xval_xround_1800: "xval (xround 1800) = 1800"
  using xval_xround_int [of 1800] by simp

lemma GenKeySWmatrix_example:
  "GenKeySWmatrix scalarEngine fixedDraws (secKey ctx8 []) 1 3 0 0 0
     = Inr ((secKey ctx8 [])\<lparr>keySwitching :=
              [\<lparr>fromKey = \<lparr>powerOfS = 1, powerOfX = 3, secretKeyID = 0\<rparr>, toKeyID = 0,
                ptxtSpaceKS = 5, bvec = [221], prgSeed = 5, noiseVarKS = 1800\<rparr>]\<rparr>)"
  by (simp add: GenKeySWmatrix_def haveKeySWmatrix_def getKeySWmatrix_def linearSearch_def
        dummy_def newKeySWmatrix_def matrixPtxtSpace_def RLWE1_def vec_at_def Let_def
        secKey_def ctx8_def zeroEnc_def scalarEngine_def fixedDraws_def xval_xround_1800)

theorem GenKeySWmatrix_idempotent_witness:
  "keySwitching (secKey ctx8 []) = []
   \<and> (\<exists>sk1. GenKeySWmatrix scalarEngine fixedDraws (secKey ctx8 []) 1 3 0 0 0 = Inr sk1
          \<and> length (keySwitching sk1) = 1
          \<and> GenKeySWmatrix scalarEngine fixedDraws sk1 1 3 0 0 0 = Inr sk1)"
proof -
  have inv: "\<forall>ks \<in> set (keySwitching (secKey ctx8 [])). 0 \<le> toKeyID ks"
    by (simp add: secKey_def)
  have "keySwitching (secKey ctx8 []) = []" by (simp add: secKey_def)
  with GenKeySWmatrix_idempotent [OF inv GenKeySWmatrix_example, of fixedDraws 0]
    GenKeySWmatrix_example
  show ?thesis by simp
qed

section \<open>The routing table holds the products of the multipliers\<close>

lemma set_keySwitchingEdges:
  "set (keySwitchingEdges keyId ms) =
     {(powerOfX (fromKey (ms ! i)), i) | i.
        i < length ms \<and> toKeyID (ms ! i) = keyId \<and> powerOfS (fromKey (ms ! i)) = 1
          \<and> secretKeyID (fromKey (ms ! i)) = keyId}"
  by (auto simp: keySwitchingEdges_def)

lemma edges_multipliers: "fst ` set (keySwitchingEdges keyId ms) = multipliers keyId ms"
proof (intro set_eqI iffI)
  fix k assume "k \<in> fst ` set (keySwitchingEdges keyId ms)"
  then obtain i where "i < length ms" "k = powerOfX (fromKey (ms ! i))"
    "toKeyID (ms ! i) = keyId" "powerOfS (fromKey (ms ! i)) = 1"
    "secretKeyID (fromKey (ms ! i)) = keyId"
    unfolding set_keySwitchingEdges by auto
  then show "k \<in> multipliers keyId ms"
    unfolding multipliers_def using nth_mem [of i ms] by blast
next
  fix k assume "k \<in> multipliers keyId ms"
  then obtain mat where mat: "mat \<in> set ms" "k = powerOfX (fromKey mat)"
    "toKeyID mat = keyId" "powerOfS (fromKey mat) = 1" "secretKeyID (fromKey mat) = keyId"
    unfolding multipliers_def by blast
  from mat(1) obtain i where i: "i < length ms" "ms ! i = mat" by (auto simp: in_set_conv_nth)
  with mat have "(k, i) \<in> set (keySwitchingEdges keyId ms)"
    unfolding set_keySwitchingEdges by blast
  then show "k \<in> fst ` set (keySwitchingEdges keyId ms)" by force
qed

lemma reach_products: "reach m K = productsOf m K"
proof (intro set_eqI iffI)
  fix t assume "t \<in> reach m K"
  then show "t \<in> productsOf m K"
  proof induction
    case (first k)
    have "MulMod 1 k m = prod_list [k] mod m" by (simp add: MulMod_def)
    with first show ?case unfolding productsOf_def by (intro CollectI exI [of _ "[k]"]) simp
  next
    case (step t k)
    then obtain ks where ks: "t = prod_list ks mod m" "ks \<noteq> []" "set ks \<subseteq> K"
      by (auto simp: productsOf_def)
    have "MulMod t k m = prod_list (ks @ [k]) mod m"
      by (simp add: MulMod_def ks(1) mod_mult_left_eq)
    with ks step.hyps(2) show ?case
      unfolding productsOf_def by (intro CollectI exI [of _ "ks @ [k]"]) simp
  qed
next
  fix t assume "t \<in> productsOf m K"
  then obtain ks where ks: "t = prod_list ks mod m" "ks \<noteq> []" "set ks \<subseteq> K"
    by (auto simp: productsOf_def)
  from ks(2,3) have "prod_list ks mod m \<in> reach m K"
  proof (induction ks rule: rev_induct)
    case Nil
    then show ?case by simp
  next
    case (snoc k ks)
    show ?case
    proof (cases "ks = []")
      case True
      have "prod_list [k] mod m = MulMod 1 k m" by (simp add: MulMod_def)
      with reach.first [of k K m] snoc.prems True show ?thesis by simp
    next
      case False
      with snoc have "prod_list ks mod m \<in> reach m K" by simp
      from reach.step [OF this, of k] snoc.prems
      show ?thesis by (simp add: MulMod_def mod_mult_left_eq)
    qed
  qed
  with ks(1) show "t \<in> reach m K" by simp
qed

lemma marked_update:
  assumes "0 \<le> x" "x < int (length tab)" "w \<noteq> - 1"
  shows "marked (tab[nat x := w]) = insert x (marked tab)"
proof (intro set_eqI)
  fix t
  show "t \<in> marked (tab[nat x := w]) \<longleftrightarrow> t \<in> insert x (marked tab)"
  proof (cases "t = x")
    case True
    have "nat x < length tab" using assms(1,2) by linarith
    with True assms show ?thesis by (simp add: marked_def)
  next
    case neq: False
    show ?thesis
    proof (cases "0 \<le> t")
      case True
      with neq assms(1) have "nat x \<noteq> nat t" by linarith
      with neq show ?thesis by (simp add: marked_def)
    next
      case False
      with neq show ?thesis by (simp add: marked_def)
    qed
  qed
qed

lemma bfsEdges_spec:
  assumes "bfsEdges m c es tab q = Inr (tab', q')"
  shows "length tab' = length tab
       \<and> (\<exists>new. q' = q @ new \<and> marked tab' = marked tab \<union> set new
                 \<and> set new \<subseteq> (\<lambda>e. MulMod c (fst e) m) ` set es)
       \<and> (\<forall>e\<in>set es. MulMod c (fst e) m \<in> marked tab')"
  using assms
proof (induction es arbitrary: tab q)
  case Nil
  then show ?case by simp
next
  case (Cons a es)
  obtain n mi where a: "a = (n, mi)" by (cases a)
  let ?x = "MulMod c n m"
  from Cons.prems a have rng: "0 \<le> ?x" "?x < int (length tab)"
    by (auto simp: vec_at_def Let_def split: if_splits)
  show ?case
  proof (cases "tab ! nat ?x = - 1")
    case True
    let ?tab1 = "tab[nat ?x := int mi]"
    from Cons.prems a rng True
    have "bfsEdges m c es ?tab1 (q @ [?x]) = Inr (tab', q')"
      by (simp add: vec_at_def Let_def)
    from Cons.IH [OF this] obtain new where
      l: "length tab' = length ?tab1"
      and q': "q' = (q @ [?x]) @ new"
      and mk: "marked tab' = marked ?tab1 \<union> set new"
      and sub: "set new \<subseteq> (\<lambda>e. MulMod c (fst e) m) ` set es"
      and succ: "\<forall>e\<in>set es. MulMod c (fst e) m \<in> marked tab'"
      by blast
    have m1: "marked ?tab1 = insert ?x (marked tab)"
      by (rule marked_update [OF rng]) simp
    have "q' = q @ (?x # new)" using q' by simp
    moreover have "marked tab' = marked tab \<union> set (?x # new)" using mk m1 by auto
    moreover have "set (?x # new) \<subseteq> (\<lambda>e. MulMod c (fst e) m) ` set (a # es)"
      using sub a by auto
    moreover have "\<forall>e\<in>set (a # es). MulMod c (fst e) m \<in> marked tab'"
      using succ mk m1 a by auto
    ultimately show ?thesis using l by (intro conjI exI [of _ "?x # new"]) simp_all
  next
    case False
    from Cons.prems a rng False
    have "bfsEdges m c es tab q = Inr (tab', q')"
      by (simp add: vec_at_def Let_def)
    from Cons.IH [OF this] obtain new where
      l: "length tab' = length tab"
      and q': "q' = q @ new"
      and mk: "marked tab' = marked tab \<union> set new"
      and sub: "set new \<subseteq> (\<lambda>e. MulMod c (fst e) m) ` set es"
      and succ: "\<forall>e\<in>set es. MulMod c (fst e) m \<in> marked tab'"
      by blast
    from rng False have "?x \<in> marked tab" by (simp add: marked_def)
    with mk succ a have "\<forall>e\<in>set (a # es). MulMod c (fst e) m \<in> marked tab'" by auto
    moreover have "set new \<subseteq> (\<lambda>e. MulMod c (fst e) m) ` set (a # es)" using sub by auto
    ultimately show ?thesis using l q' mk by (intro conjI exI [of _ new]) simp_all
  qed
qed

lemma bfsEdges_total:
  assumes "0 < m" "length tab = nat m"
  shows "\<exists>tab' q'. bfsEdges m c es tab q = Inr (tab', q')"
  using assms(2)
proof (induction es arbitrary: tab q)
  case Nil
  then show ?case by simp
next
  case (Cons a es)
  obtain n mi where a: "a = (n, mi)" by (cases a)
  let ?x = "MulMod c n m"
  have rng: "0 \<le> ?x" "?x < int (length tab)"
    using assms(1) Cons.prems by (simp_all add: MulMod_def)
  show ?case
  proof (cases "tab ! nat ?x = - 1")
    case True
    from Cons.IH [of "tab[nat ?x := int mi]" "q @ [?x]"] Cons.prems a rng True
    show ?thesis by (simp add: vec_at_def Let_def)
  next
    case False
    from Cons.IH [of tab q] Cons.prems a rng False
    show ?thesis by (simp add: vec_at_def Let_def)
  qed
qed

lemma bfsInv_step:
  assumes inv: "bfsInv m (fst ` set edges) tab (c # rest)"
    and inner: "bfsEdges m c edges tab (c # rest) = Inr (tab', q')"
  shows "bfsInv m (fst ` set edges) tab' (tl q')"
proof -
  let ?K = "fst ` set edges"
  from bfsEdges_spec [OF inner] obtain new where
    l: "length tab' = length tab"
    and q': "q' = (c # rest) @ new"
    and mk: "marked tab' = marked tab \<union> set new"
    and sub: "set new \<subseteq> (\<lambda>e. MulMod c (fst e) m) ` set edges"
    and succ: "\<forall>e\<in>set edges. MulMod c (fst e) m \<in> marked tab'"
    by blast
  from inv have len: "length tab = nat m" and mr: "marked tab \<subseteq> reach m ?K"
    and qs: "set (c # rest) \<subseteq> insert 1 (marked tab)"
    and ex: "\<forall>t \<in> insert 1 (marked tab). t \<in> set (c # rest) \<or> (\<forall>k\<in>?K. MulMod t k m \<in> marked tab)"
    by (simp_all add: bfsInv_def)
  have tl: "tl q' = rest @ new" using q' by simp
  have csucc: "MulMod c k m \<in> reach m ?K" if "k \<in> ?K" for k
  proof -
    from qs have "c = 1 \<or> c \<in> marked tab" by auto
    then show ?thesis
    proof
      assume "c = 1"
      with reach.first [OF that, of m] show ?thesis by simp
    next
      assume "c \<in> marked tab"
      with mr have "c \<in> reach m ?K" by blast
      from reach.step [OF this that] show ?thesis .
    qed
  qed
  have newr: "set new \<subseteq> reach m ?K"
  proof
    fix t assume "t \<in> set new"
    with sub obtain e where "e \<in> set edges" "t = MulMod c (fst e) m" by auto
    with csucc [of "fst e"] show "t \<in> reach m ?K" by simp
  qed
  have a: "length tab' = nat m" using l len by simp
  have b: "marked tab' \<subseteq> reach m ?K" using mk mr newr by auto
  have c: "set (tl q') \<subseteq> insert 1 (marked tab')" using tl qs mk by auto
  have d: "t \<in> set (tl q') \<or> (\<forall>k\<in>?K. MulMod t k m \<in> marked tab')"
    if t: "t \<in> insert 1 (marked tab')" for t
  proof (cases "t = c")
    case True
    with succ show ?thesis by auto
  next
    case False
    show ?thesis
    proof (cases "t \<in> set new")
      case True
      with tl show ?thesis by simp
    next
      case nn: False
      with t mk have "t \<in> insert 1 (marked tab)" by auto
      with ex have "t \<in> set (c # rest) \<or> (\<forall>k\<in>?K. MulMod t k m \<in> marked tab)" by blast
      then show ?thesis
      proof
        assume "t \<in> set (c # rest)"
        with False tl show ?thesis by simp
      next
        assume "\<forall>k\<in>?K. MulMod t k m \<in> marked tab"
        with mk show ?thesis by auto
      qed
    qed
  qed
  from a b c d show ?thesis unfolding bfsInv_def by blast
qed

lemma bfsLoop_correct:
  "0 < m \<Longrightarrow> bfsInv m (fst ` set edges) tab q \<Longrightarrow>
     \<exists>tab'. bfsLoop m edges tab q = Inr tab' \<and> length tab' = nat m
            \<and> marked tab' = reach m (fst ` set edges)"
proof (induction m edges tab q rule: bfsLoop.induct)
  case (1 m edges tab q)
  let ?K = "fst ` set edges"
  note m = "1.prems"(1) and inv = "1.prems"(2)
  show ?case
  proof (cases q)
    case Nil
    from inv Nil have len: "length tab = nat m" and mr: "marked tab \<subseteq> reach m ?K"
      and ex: "\<forall>t \<in> insert 1 (marked tab). \<forall>k\<in>?K. MulMod t k m \<in> marked tab"
      by (simp_all add: bfsInv_def)
    have "t \<in> marked tab" if "t \<in> reach m ?K" for t
      using that
    proof induction
      case (first k)
      with ex show ?case by blast
    next
      case (step t k)
      with ex show ?case by blast
    qed
    with mr have "marked tab = reach m ?K" by blast
    with Nil len show ?thesis by (simp add: bfsLoop.simps)
  next
    case (Cons c rest)
    from inv have len: "length tab = nat m" by (simp add: bfsInv_def)
    from bfsEdges_total [OF m len, of c edges q] obtain tab1 q1 where
      inner: "bfsEdges m c edges tab q = Inr (tab1, q1)" by blast
    from bfsInv_step [of m edges tab c rest tab1 q1] inv inner Cons
    have "bfsInv m ?K tab1 (tl q1)" by simp
    from "1.IH" [OF Cons inner refl m this]
    obtain tab' where "bfsLoop m edges tab1 (tl q1) = Inr tab'" "length tab' = nat m"
      "marked tab' = reach m ?K" by blast
    moreover have "bfsLoop m edges tab q = bfsLoop m edges tab1 (tl q1)"
      using inner Cons by (subst bfsLoop.simps) simp
    ultimately show ?thesis by simp
  qed
qed

lemma marked_replicate: "marked (replicate n (- 1)) = {}"
proof -
  have "nat t < n" if "0 \<le> t" "t < int n" for t using that by linarith
  then show ?thesis by (auto simp: marked_def)
qed

lemma bfs_table:
  assumes "0 < m"
  shows "\<exists>tab. bfsLoop m edges (replicate (nat m) (- 1)) [1] = Inr tab \<and> length tab = nat m
           \<and> marked tab = productsOf m (fst ` set edges)"
proof -
  have "bfsInv m (fst ` set edges) (replicate (nat m) (- 1)) [1]"
    by (simp add: bfsInv_def marked_replicate)
  from bfsLoop_correct [OF assms this] show ?thesis by (simp add: reach_products)
qed

lemma power_in_products:
  assumes "k \<in> K" "0 < n"
  shows "k ^ n mod m \<in> productsOf m K"
proof -
  have "prod_list (replicate n k) = k ^ n" by (induction n) simp_all
  moreover have "replicate n k \<noteq> []" "set (replicate n k) \<subseteq> K" using assms by auto
  ultimately show ?thesis unfolding productsOf_def by (metis (mono_tags, lifting) CollectI)
qed

lemma unit_cycle:
  assumes "0 < m" "coprime k m"
  shows "\<exists>d>0. k ^ d mod m = 1 mod (m::int)"
proof -
  let ?f = "\<lambda>n::nat. k ^ n mod m"
  have "range ?f \<subseteq> {0..<m}" using assms(1) by auto
  then have fin: "finite (range ?f)" by (rule finite_subset) simp
  have "\<not> inj ?f"
  proof
    assume "inj ?f"
    with fin have "finite (UNIV :: nat set)" by (rule finite_imageD)
    then show False by simp
  qed
  then obtain i j where ij: "i \<noteq> j" "?f i = ?f j" by (auto simp: inj_on_def)
  have "\<exists>a d. 0 < d \<and> ?f (a + d) = ?f a"
  proof (cases "i < j")
    case True
    with ij(2) show ?thesis by (intro exI [of _ i] exI [of _ "j - i"]) simp
  next
    case False
    with ij show ?thesis by (intro exI [of _ j] exI [of _ "i - j"]) simp
  qed
  then obtain a d where d: "0 < d" "?f (a + d) = ?f a" by blast
  then have "m dvd k ^ (a + d) - k ^ a" by (simp add: mod_eq_dvd_iff)
  also have "k ^ (a + d) - k ^ a = k ^ a * (k ^ d - 1)"
    by (simp add: power_add algebra_simps)
  finally have "m dvd k ^ a * (k ^ d - 1)" .
  moreover have "coprime m (k ^ a)" using assms(2) by (simp add: coprime_commute)
  ultimately have "m dvd k ^ d - 1" by (simp add: coprime_dvd_mult_right_iff)
  then have "k ^ d mod m = 1 mod m" by (simp add: mod_eq_dvd_iff)
  with d(1) show ?thesis by blast
qed

lemma generated_insert: "generated m K = insert (1 mod m) (productsOf m K)"
proof (intro set_eqI iffI)
  fix t assume "t \<in> generated m K"
  then obtain ks where ks: "t = prod_list ks mod m" "set ks \<subseteq> K" by (auto simp: generated_def)
  show "t \<in> insert (1 mod m) (productsOf m K)"
  proof (cases "ks = []")
    case True
    with ks show ?thesis by simp
  next
    case False
    with ks show ?thesis unfolding productsOf_def by blast
  qed
next
  fix t assume "t \<in> insert (1 mod m) (productsOf m K)"
  then show "t \<in> generated m K"
  proof
    assume "t = 1 mod m"
    then have "t = prod_list [] mod m" by simp
    then show ?thesis unfolding generated_def by (intro CollectI exI [of _ "[]"]) simp
  next
    assume "t \<in> productsOf m K"
    then show ?thesis unfolding productsOf_def generated_def by blast
  qed
qed

lemma generated_units:
  assumes "0 < m" "K \<noteq> {}" "\<forall>k\<in>K. coprime k m"
  shows "generated m K = productsOf m K"
proof -
  from assms(2) obtain k where k: "k \<in> K" by blast
  with assms(3) have "coprime k m" by blast
  from unit_cycle [OF assms(1) this] obtain d where "0 < d" "k ^ d mod m = 1 mod m" by blast
  with power_in_products [OF k, of d m] have "1 mod m \<in> productsOf m K" by simp
  then show ?thesis by (auto simp: generated_insert)
qed

lemma bfs_example:
  "bfsLoop 7 [(2, 0)] (replicate (nat 7) (- 1)) [1] = Inr [- 1, 0, 0, - 1, 0, - 1, - 1]"
  by code_simp

lemma bfs_no_edges:
  "bfsLoop 7 [] (replicate (nat 7) (- 1)) [1] = Inr [- 1, - 1, - 1, - 1, - 1, - 1, - 1]"
  by code_simp

lemma setKeySwitchMap_example:
  "setKeySwitchMap (secKey ctx7 [ksMat 2 0 1]) 0
     = Inr ((secKey ctx7 [ksMat 2 0 1])\<lparr>keySwitchMap := [[- 1, 0, 0, - 1, 0, - 1, - 1]]\<rparr>)"
  by (simp add: setKeySwitchMap_def keySwitchingEdges_def secKey_def ctx7_def ksMat_def
        bfs_example [simplified])

lemma multipliers_example: "multipliers 0 (keySwitching (secKey ctx7 [ksMat 2 0 1])) = {2}"
  by (auto simp: multipliers_def secKey_def ksMat_def)

text \<open>
  Claim C3, as amended. For a key index that passes the assertion and a positive \<open>m\<close>,
  \<^verbatim>\<open>setKeySwitchMap(keyId)\<close> returns, and for every power \<open>t\<close> in \<open>[0, m)\<close> the entry
  \<^verbatim>\<open>keySwitchMap[keyId][t]\<close> is not the sentinel \<open>-1\<close> if and only if \<open>t\<close> is, modulo \<open>m\<close>, a
  product of one or more multipliers of the key. In particular, when the key has at least
  one multiplier and all its multipliers are units modulo \<open>m\<close>, the entries present are
  those of the generated subgroup, the identity power 1 included, and no other.
\<close>

theorem setKeySwitchMap_routing:
  assumes k0: "0 \<le> keyId" and k1: "keyId < int (length (skSizes pk))"
    and m: "0 < getM (getContext pk)"
  shows "\<exists>pk'. setKeySwitchMap pk keyId = Inr pk'
           \<and> (\<forall>t. 0 \<le> t \<and> t < getM (getContext pk) \<longrightarrow>
                 (keySwitchMap pk' ! nat keyId ! nat t \<noteq> - 1
                    \<longleftrightarrow> t \<in> productsOf (getM (getContext pk))
                                (multipliers keyId (keySwitching pk))))
           \<and> (multipliers keyId (keySwitching pk) \<noteq> {}
                \<and> (\<forall>k \<in> multipliers keyId (keySwitching pk). coprime k (getM (getContext pk)))
               \<longrightarrow> (\<forall>t. 0 \<le> t \<and> t < getM (getContext pk) \<longrightarrow>
                      (keySwitchMap pk' ! nat keyId ! nat t \<noteq> - 1
                         \<longleftrightarrow> t \<in> generated (getM (getContext pk))
                                     (multipliers keyId (keySwitching pk)))))"
proof -
  let ?m = "getM (getContext pk)"
  let ?K = "multipliers keyId (keySwitching pk)"
  let ?ksm = "if keyId \<ge> int (length (keySwitchMap pk))
              then keySwitchMap pk @ replicate (nat (keyId + 1) - length (keySwitchMap pk)) []
              else keySwitchMap pk"
  from bfs_table [OF m, of "keySwitchingEdges keyId (keySwitching pk)"]
  obtain tab where tab:
    "bfsLoop ?m (keySwitchingEdges keyId (keySwitching pk)) (replicate (nat ?m) (- 1)) [1] = Inr tab"
    and len: "length tab = nat ?m"
    and mk: "marked tab = productsOf ?m ?K"
    by (auto simp: edges_multipliers)
  let ?pk' = "pk\<lparr>keySwitchMap := ?ksm[nat keyId := tab]\<rparr>"
  from k0 k1 m tab have res: "setKeySwitchMap pk keyId = Inr ?pk'"
    by (simp add: setKeySwitchMap_def Let_def)
  have "nat keyId < length ?ksm" using k0 by (auto split: if_splits)
  then have row: "keySwitchMap ?pk' ! nat keyId = tab" by simp
  have entry: "(keySwitchMap ?pk' ! nat keyId ! nat t \<noteq> - 1) \<longleftrightarrow> t \<in> productsOf ?m ?K"
    if "0 \<le> t \<and> t < ?m" for t
  proof -
    from that len have "t \<in> marked tab \<longleftrightarrow> tab ! nat t \<noteq> - 1" by (simp add: marked_def)
    with mk row show ?thesis by simp
  qed
  have units: "generated ?m ?K = productsOf ?m ?K"
    if "?K \<noteq> {} \<and> (\<forall>k \<in> ?K. coprime k ?m)"
    using generated_units [OF m, of ?K] that by blast
  from res entry units show ?thesis by (intro exI [of _ ?pk']) simp
qed

theorem setKeySwitchMap_routing_witness:
  "(0::int) \<le> 0 \<and> 0 < int (length (skSizes (secKey ctx7 [ksMat 2 0 1])))
   \<and> 0 < getM (getContext (secKey ctx7 [ksMat 2 0 1]))
   \<and> multipliers 0 (keySwitching (secKey ctx7 [ksMat 2 0 1])) = {2}
   \<and> coprime (2::int) 7
   \<and> setKeySwitchMap (secKey ctx7 [ksMat 2 0 1]) 0
       = Inr ((secKey ctx7 [ksMat 2 0 1])\<lparr>keySwitchMap := [[- 1, 0, 0, - 1, 0, - 1, - 1]]\<rparr>)
   \<and> 4 \<in> productsOf 7 (multipliers 0 (keySwitching (secKey ctx7 [ksMat 2 0 1])))
   \<and> 3 \<notin> productsOf 7 (multipliers 0 (keySwitching (secKey ctx7 [ksMat 2 0 1])))
   \<and> 1 \<in> generated 7 (multipliers 0 (keySwitching (secKey ctx7 [ksMat 2 0 1])))"
proof -
  let ?pk = "secKey ctx7 [ksMat 2 0 1]"
  let ?K = "multipliers 0 (keySwitching ?pk)"
  have k0: "(0::int) \<le> 0" by simp
  have k1: "0 < int (length (skSizes ?pk))" by (simp add: secKey_def)
  have m: "0 < getM (getContext ?pk)" and m7: "getM (getContext ?pk) = 7"
    by (simp_all add: secKey_def ctx7_def)
  have c27: "coprime (2::int) 7" by code_simp
  have ne: "?K \<noteq> {}" and un: "\<forall>k \<in> ?K. coprime k 7"
    using c27 by (simp_all add: multipliers_example)
  from setKeySwitchMap_routing [OF k0 k1 m] obtain pk' where
    r: "setKeySwitchMap ?pk 0 = Inr pk'"
    and P: "\<forall>t. 0 \<le> t \<and> t < getM (getContext ?pk) \<longrightarrow>
             (keySwitchMap pk' ! nat 0 ! nat t \<noteq> - 1
                \<longleftrightarrow> t \<in> productsOf (getM (getContext ?pk)) ?K)"
    and G: "?K \<noteq> {} \<and> (\<forall>k \<in> ?K. coprime k (getM (getContext ?pk))) \<longrightarrow>
            (\<forall>t. 0 \<le> t \<and> t < getM (getContext ?pk) \<longrightarrow>
             (keySwitchMap pk' ! nat 0 ! nat t \<noteq> - 1
                \<longleftrightarrow> t \<in> generated (getM (getContext ?pk)) ?K))"
    by blast
  from r setKeySwitchMap_example
  have row: "keySwitchMap pk' ! 0 = [- 1, 0, 0, - 1, 0, - 1, - 1]" by auto
  from P [rule_format, of 4] have a: "4 \<in> productsOf 7 ?K" by (simp add: row m7)
  from P [rule_format, of 3] have b: "3 \<notin> productsOf 7 ?K" by (simp add: row m7)
  from G ne un have "\<forall>t. 0 \<le> t \<and> t < getM (getContext ?pk) \<longrightarrow>
             (keySwitchMap pk' ! nat 0 ! nat t \<noteq> - 1
                \<longleftrightarrow> t \<in> generated (getM (getContext ?pk)) ?K)"
    by (simp add: m7)
  from this [rule_format, of 1] have c: "1 \<in> generated 7 ?K" by (simp add: row m7)
  from k0 k1 m multipliers_example c27 setKeySwitchMap_example a b c show ?thesis by blast
qed

text \<open>
  The identity power is not present when the key has no matrix: the search marks a node
  only when an edge reaches it. For \<open>m = 7\<close> and an empty registry every entry of the
  rebuilt table is \<open>-1\<close>, the entry of the power 1 too, although 1 is the empty product and
  the identity of the subgroup generated by no multiplier.
\<close>

theorem setKeySwitchMap_identity_counterexample:
  "setKeySwitchMap (secKey ctx7 []) 0
     = Inr ((secKey ctx7 [])\<lparr>keySwitchMap := [[- 1, - 1, - 1, - 1, - 1, - 1, - 1]]\<rparr>)
   \<and> keySwitchMap ((secKey ctx7 [])\<lparr>keySwitchMap := [[- 1, - 1, - 1, - 1, - 1, - 1, - 1]]\<rparr>)
        ! nat 0 ! nat 1 = - 1
   \<and> 1 \<in> generated (getM (getContext (secKey ctx7 [])))
             (multipliers 0 (keySwitching (secKey ctx7 [])))"
proof -
  have a: "setKeySwitchMap (secKey ctx7 []) 0
     = Inr ((secKey ctx7 [])\<lparr>keySwitchMap := [[- 1, - 1, - 1, - 1, - 1, - 1, - 1]]\<rparr>)"
    by (simp add: setKeySwitchMap_def keySwitchingEdges_def secKey_def ctx7_def
          bfs_no_edges [simplified])
  have "(1::int) = prod_list [] mod 7" by simp
  then have "1 \<in> generated 7 (multipliers 0 (keySwitching (secKey ctx7 [])))"
    unfolding generated_def by (intro CollectI exI [of _ "[]"]) simp
  then have b: "1 \<in> generated (getM (getContext (secKey ctx7 [])))
             (multipliers 0 (keySwitching (secKey ctx7 [])))"
    by (simp add: secKey_def ctx7_def)
  from a b show ?thesis by simp
qed

end
